(* ===== verification/Bridge_Prelude.thy ===== *)
theory Bridge_Prelude
  imports Main "HOL-Library.Word"
begin

text \<open>
  Shared material of the development: the machine-integer types of the C++ sources, the
  splitting of integers into bytes and back that both wire formats use, the C library
  primitive \<^verbatim>\<open>memcpy\<close> on byte arrays, text as bytes, and the collection \<open>keeps\<close> in
  which the components register what their operations leave unchanged.

  Fixed-width integers are words: \<open>+\<close> and \<open>-\<close> wrap exactly as on \<^verbatim>\<open>uintN_t\<close>.  A signed
  \<^verbatim>\<open>intN_t\<close> is the same word read by \<open>sint\<close>.  A \<^verbatim>\<open>size_t\<close> that counts bytes of a buffer
  is a \<open>nat\<close>: every such count in the sources is bounded by the length of a buffer in
  memory.  A pointer that the source compares with null is an option.
\<close>

unbundle bit_operations_syntax

type_synonym byte = "8 word"
type_synonym u16 = "16 word"
type_synonym u32 = "32 word"
type_synonym u64 = "64 word"
type_synonym i8 = "8 word"
type_synonym i16 = "16 word"

named_theorems keeps "fields an operation leaves unchanged"

subsection \<open>Deadlines\<close>

text \<open>\<^verbatim>\<open>UINT64_MAX\<close>: the value of a deadline that is not armed.\<close>

definition UINT64_MAX :: u64 where
  "UINT64_MAX = - 1"

lemma UINT64_MAX_top [simp]: "t \<le> UINT64_MAX"
  by (simp add: UINT64_MAX_def)

lemma less_UINT64_MAX_iff: "t < UINT64_MAX \<longleftrightarrow> t \<noteq> UINT64_MAX"
  by (simp add: order.strict_iff_order)

subsection \<open>Integers and bytes\<close>

definition byte16 :: "nat \<Rightarrow> u16 \<Rightarrow> byte" where
  "byte16 n v = ucast (drop_bit n v)"

definition byte32 :: "nat \<Rightarrow> u32 \<Rightarrow> byte" where
  "byte32 n v = ucast (drop_bit n v)"

definition join16 :: "byte \<Rightarrow> byte \<Rightarrow> u16" where
  "join16 h l = push_bit 8 (ucast h) OR ucast l"

definition join32 :: "byte \<Rightarrow> byte \<Rightarrow> byte \<Rightarrow> byte \<Rightarrow> u32" where
  "join32 a b c d =
     push_bit 24 (ucast a) OR push_bit 16 (ucast b) OR push_bit 8 (ucast c) OR ucast d"

lemma bit_byte_ge [simp]: "8 \<le> n \<Longrightarrow> bit (b :: byte) n = False"
  by (simp add: impossible_bit)

lemma unat_byte_less: "unat (b :: byte) < 256"
  using unsigned_less [of b] by simp

lemma join16_split [simp]: "join16 (byte16 8 v) (byte16 0 v) = v"
  by (rule bit_word_eqI) (auto simp: join16_def byte16_def bit_simps)

lemma split_join16 [simp]: "byte16 8 (join16 a b) = a" "byte16 0 (join16 a b) = b"
  by (rule bit_word_eqI, simp add: join16_def byte16_def bit_simps)+

lemma join32_split [simp]: "join32 (byte32 24 v) (byte32 16 v) (byte32 8 v) (byte32 0 v) = v"
proof (rule bit_word_eqI)
  fix n assume "n < LENGTH(32)"
  then consider "n < 8" | "8 \<le> n" "n < 16" | "16 \<le> n" "n < 24" | "24 \<le> n" "n < 32"
    by fastforce
  then show "bit (join32 (byte32 24 v) (byte32 16 v) (byte32 8 v) (byte32 0 v)) n \<longleftrightarrow> bit v n"
    by cases (auto simp: join32_def byte32_def bit_simps)
qed

lemma split_join32 [simp]:
  "byte32 24 (join32 a b c d) = a" "byte32 16 (join32 a b c d) = b"
  "byte32 8 (join32 a b c d) = c" "byte32 0 (join32 a b c d) = d"
  by (rule bit_word_eqI, simp add: join32_def byte32_def bit_simps)+

lemma unat_of_nat_u16 [simp]: "n < 65536 \<Longrightarrow> unat (of_nat n :: u16) = n"
  by (simp add: unat_of_nat)

lemma u16_le_numeral_iff: "(w :: u16) \<le> numeral k \<longleftrightarrow> unat w \<le> unat (numeral k :: u16)"
  by (simp add: word_le_nat_alt)

subsection \<open>Byte arrays\<close>

text \<open>
  \<^verbatim>\<open>memcpy(dst + off, src, n)\<close> on an array \<open>dst\<close>: \<open>n\<close> bytes of \<open>src\<close> replace those at
  \<open>off\<close>.  When \<open>off + n\<close> is past the end of \<open>dst\<close> the result is longer than \<open>dst\<close>; the
  lemmas on the callers show that this does not happen.
\<close>

definition memcpy :: "'a list \<Rightarrow> nat \<Rightarrow> 'a list \<Rightarrow> nat \<Rightarrow> 'a list" where
  "memcpy dst off src n = take off dst @ take n src @ drop (off + n) dst"

lemma length_memcpy [simp]:
  "off + n \<le> length dst \<Longrightarrow> n \<le> length src \<Longrightarrow> length (memcpy dst off src n) = length dst"
  by (simp add: memcpy_def)

lemma take_memcpy [simp]:
  "off + n \<le> length dst \<Longrightarrow> n \<le> length src \<Longrightarrow>
     take (off + n) (memcpy dst off src n) = take off dst @ take n src"
  by (simp add: memcpy_def)

subsection \<open>Text\<close>

text \<open>A \<^verbatim>\<open>std::string\<close> is a \<open>string\<close>; on a socket its characters are bytes.\<close>

definition bytes_of_string :: "string \<Rightarrow> byte list" where
  "bytes_of_string s = map (\<lambda>c. of_nat (of_char c)) s"

definition string_of_bytes :: "byte list \<Rightarrow> string" where
  "string_of_bytes bs = map (\<lambda>b. char_of (unat b)) bs"

lemma string_of_bytes_of_string [simp]: "string_of_bytes (bytes_of_string s) = s"
proof -
  have "char_of (unat (of_nat (of_char c) :: byte)) = c" for c :: char
    by (simp add: unat_of_nat)
  then show ?thesis
    by (simp add: string_of_bytes_def bytes_of_string_def comp_def)
qed

lemma length_bytes_of_string [simp]: "length (bytes_of_string s) = length s"
  by (simp add: bytes_of_string_def)

lemma length_string_of_bytes [simp]: "length (string_of_bytes bs) = length bs"
  by (simp add: string_of_bytes_def)

text \<open>\<^verbatim>\<open>s.compare(0, strlen(p), p) == 0\<close>.\<close>

definition starts_with :: "string \<Rightarrow> string \<Rightarrow> bool" where
  "starts_with s p \<longleftrightarrow> take (length p) s = p"

text \<open>\<^verbatim>\<open>s.find(key)\<close>: the position of the first occurrence.\<close>

fun str_find :: "string \<Rightarrow> string \<Rightarrow> nat option" where
  "str_find key [] = (if key = [] then Some 0 else None)"
| "str_find key (c # s) =
     (if starts_with (c # s) key then Some 0 else map_option Suc (str_find key s))"

text \<open>\<^verbatim>\<open>%u\<close>: the decimal digits of a number.\<close>

fun show_nat :: "nat \<Rightarrow> string" where
  "show_nat n =
     (if n < 10 then [char_of (48 + n)] else show_nat (n div 10) @ [char_of (48 + n mod 10)])"

declare show_nat.simps [simp del]

definition is_digit :: "char \<Rightarrow> bool" where
  "is_digit c \<longleftrightarrow> 48 \<le> (of_char c :: nat) \<and> (of_char c :: nat) \<le> 57"

definition read_nat :: "string \<Rightarrow> nat" where
  "read_nat s = foldl (\<lambda>a c. 10 * a + (of_char c - 48)) 0 s"

lemma of_char_digit [simp]: "n < 10 \<Longrightarrow> (of_char (char_of (48 + n) :: char) :: nat) = 48 + n"
  by (simp add: of_char_of)

lemma read_show_nat [simp]: "read_nat (show_nat n) = n"
  by (induction n rule: show_nat.induct)
     (subst show_nat.simps, auto simp: read_nat_def)

lemma show_nat_inject [simp]: "show_nat m = show_nat n \<longleftrightarrow> m = n"
  by (metis read_show_nat)

lemma show_nat_digits: "c \<in> set (show_nat n) \<Longrightarrow> is_digit c"
proof (induction n rule: show_nat.induct)
  case (1 n)
  then show ?case
    by (subst (asm) (2) show_nat.simps) (auto simp: is_digit_def split: if_splits)
qed

lemma show_nat_not_Nil [simp]: "show_nat n \<noteq> []"
  by (subst show_nat.simps) simp

lemma length_show_nat: "n < 10 ^ Suc k \<Longrightarrow> length (show_nat n) \<le> Suc k"
proof (induction k arbitrary: n)
  case 0
  then show ?case by (subst show_nat.simps) simp
next
  case (Suc k)
  then have "n div 10 < 10 ^ Suc k" by (simp add: less_mult_imp_div_less)
  then have "length (show_nat (n div 10)) \<le> Suc k" by (rule Suc.IH)
  then show ?case by (subst show_nat.simps) simp
qed

text \<open>Fields of a line that are separated by a character they do not contain.\<close>

lemma field_eq:
  assumes "xs @ c # r = ys @ c # r'" and "c \<notin> set xs" and "c \<notin> set ys"
  shows "xs = ys \<and> r = r'"
  using assms
  by (induction xs arbitrary: ys) (auto simp: Cons_eq_append_conv append_eq_Cons_conv)

lemma field_iff:
  "c \<notin> set xs \<Longrightarrow> c \<notin> set ys \<Longrightarrow> xs @ c # r = ys @ c # r' \<longleftrightarrow> xs = ys \<and> r = r'"
  by (rule iffI, rule field_eq) simp_all

end
