(* ===== verification/Stream_Parser.thy ===== *)
theory Stream_Parser
  imports Bridge_Prelude
begin

text \<open>
  The contract of a bounded streaming parser and of the read loop around it.  Both wire
  formats of the bridge have such a parser (\<^verbatim>\<open>extradio::Parser\<close> for the firmware link,
  \<^verbatim>\<open>loraham::Parser\<close> for the daemon link) and the sources drive it by the same loop: pop a
  frame and handle it, else push more of the bytes just read.  The contract says what the
  parser does in terms of the bytes it holds; the read loop then behaves as if the whole
  stream were deframed at once, however the bytes arrived.
\<close>

datatype ('f, 'e) PopResult = POP_NEED_MORE | POP_GOT_FRAME 'f | POP_ERROR 'e

text \<open>The decision on a prefix of the stream: a frame and its length in bytes, an error, or
  not enough bytes yet.\<close>

datatype ('f, 'e) deframed = NeedMore | Got 'f nat | Bad 'e

subsection \<open>Deframing a whole stream\<close>

text \<open>
  Specification of a read loop: handle the frames of a stream in order until the handler
  halts, the stream is malformed, or the rest is an incomplete frame.  The result is the
  state and the bytes that were not used.
\<close>

function stream_run ::
  "(byte list \<Rightarrow> ('f, 'e) deframed) \<Rightarrow> ('f \<Rightarrow> 's \<Rightarrow> 's) \<Rightarrow> ('s \<Rightarrow> 's) \<Rightarrow> ('s \<Rightarrow> bool) \<Rightarrow>
     byte list \<Rightarrow> 's \<Rightarrow> 's \<times> byte list" where
  "stream_run deframe handle fail halted xs s =
     (case deframe xs of
        NeedMore \<Rightarrow> (s, xs)
      | Bad e \<Rightarrow> (fail s, xs)
      | Got f n \<Rightarrow>
          if n = 0 \<or> length xs < n then (fail s, xs)
          else if halted (handle f s) then (handle f s, drop n xs)
          else stream_run deframe handle fail halted (drop n xs) (handle f s))"
  by pat_completeness auto
termination
  by (relation "measure (\<lambda>(d, h, fl, ha, xs, s). length xs)") auto

declare stream_run.simps [simp del]

text \<open>Handling a list of frames until the handler halts.\<close>

fun run_frames :: "('f \<Rightarrow> 's \<Rightarrow> 's) \<Rightarrow> ('s \<Rightarrow> bool) \<Rightarrow> 'f list \<Rightarrow> 's \<Rightarrow> 's" where
  "run_frames handle halted [] s = s"
| "run_frames handle halted (f # fs) s =
     (if halted (handle f s) then handle f s else run_frames handle halted fs (handle f s))"

subsection \<open>The parser contract\<close>

locale frame_parser =
  fixes invar :: "'p \<Rightarrow> bool"
    and held :: "'p \<Rightarrow> byte list"
    and bound :: nat
    and push :: "'p \<Rightarrow> byte list \<Rightarrow> nat \<times> 'p"
    and pop :: "'p \<Rightarrow> ('f, 'e) PopResult \<times> 'p"
    and deframe :: "byte list \<Rightarrow> ('f, 'e) deframed"
  assumes push_count: "invar p \<Longrightarrow> fst (push p xs) = min (length xs) (bound - length (held p))"
    and push_held: "invar p \<Longrightarrow> held (snd (push p xs)) = held p @ take (fst (push p xs)) xs"
    and push_invar: "invar p \<Longrightarrow> invar (snd (push p xs))"
    and pop_need: "invar p \<Longrightarrow> deframe (held p) = NeedMore \<Longrightarrow> pop p = (POP_NEED_MORE, p)"
    and pop_bad: "invar p \<Longrightarrow> deframe (held p) = Bad e \<Longrightarrow> pop p = (POP_ERROR e, p)"
    and pop_got: "invar p \<Longrightarrow> deframe (held p) = Got f n \<Longrightarrow>
          fst (pop p) = POP_GOT_FRAME f \<and> held (snd (pop p)) = drop n (held p)"
    and pop_invar: "invar p \<Longrightarrow> invar (snd (pop p))"
    and held_bound: "invar p \<Longrightarrow> length (held p) \<le> bound"
    and deframe_got: "deframe xs = Got f n \<Longrightarrow> 0 < n \<and> n \<le> length xs"
    and deframe_got_mono: "deframe xs = Got f n \<Longrightarrow> deframe (xs @ ys) = Got f n"
    and deframe_bad_mono: "deframe xs = Bad e \<Longrightarrow> deframe (xs @ ys) = Bad e"
    and deframe_full: "bound \<le> length xs \<Longrightarrow> deframe xs \<noteq> NeedMore"
begin

text \<open>A parser that wants more bytes has room: a full buffer always decides.\<close>

lemma need_more_room:
  assumes "invar p" and "deframe (held p) = NeedMore" and "xs \<noteq> []"
  shows "0 < fst (push p xs)"
proof -
  from assms(2) have "length (held p) < bound"
    using deframe_full not_le by blast
  with assms(1,3) show ?thesis by (simp add: push_count)
qed

lemma push_split:
  assumes "invar p"
  shows "held (snd (push p xs)) @ drop (fst (push p xs)) xs = held p @ xs"
  using assms by (simp add: push_held)

end

subsection \<open>The read loop\<close>

text \<open>
  \<open>loop\<close> is a read loop over a state that contains the parser (\<open>parser\<close>, \<open>set_parser\<close>).
  Handling a frame and failing do not read the parser, and write it (to reset it) only when
  they halt the loop.  \<open>shape\<close> is the loop's defining equation in the sources.
\<close>

locale parser_loop = frame_parser invar held bound push pop deframe
  for invar :: "'p \<Rightarrow> bool"
    and held :: "'p \<Rightarrow> byte list"
    and bound :: nat
    and push :: "'p \<Rightarrow> byte list \<Rightarrow> nat \<times> 'p"
    and pop :: "'p \<Rightarrow> ('f, 'e) PopResult \<times> 'p"
    and deframe :: "byte list \<Rightarrow> ('f, 'e) deframed" +
  fixes parser :: "'s \<Rightarrow> 'p"
    and set_parser :: "'p \<Rightarrow> 's \<Rightarrow> 's"
    and handle :: "'f \<Rightarrow> 's \<Rightarrow> 's"
    and fail :: "'s \<Rightarrow> 's"
    and halted :: "'s \<Rightarrow> bool"
    and loop :: "byte list \<Rightarrow> 's \<Rightarrow> 's"
  assumes get_set [simp]: "parser (set_parser p s) = p"
    and set_set [simp]: "set_parser p (set_parser q s) = set_parser p s"
    and set_get [simp]: "set_parser (parser s) s = s"
    and handle_set: "set_parser q (handle f (set_parser p s)) = set_parser q (handle f s)"
    and handle_parser: "\<not> halted (handle f s) \<Longrightarrow> parser (handle f s) = parser s"
    and handle_invar: "invar (parser s) \<Longrightarrow> invar (parser (handle f s))"
    and fail_set: "set_parser q (fail (set_parser p s)) = set_parser q (fail s)"
    and fail_invar: "invar (parser s) \<Longrightarrow> invar (parser (fail s))"
    and halted_set [simp]: "halted (set_parser p s) = halted s"
    and halted_fail: "halted (fail s)"
    and shape: "loop xs s =
      (case pop (parser s) of
         (POP_GOT_FRAME f, p) \<Rightarrow>
           if halted (handle f (set_parser p s)) then handle f (set_parser p s)
           else loop xs (handle f (set_parser p s))
       | (POP_ERROR e, p) \<Rightarrow> fail (set_parser p s)
       | (POP_NEED_MORE, p) \<Rightarrow>
           if xs = [] then set_parser p s
           else if fst (push p xs) = 0 then fail (set_parser (snd (push p xs)) s)
           else loop (drop (fst (push p xs)) xs) (set_parser (snd (push p xs)) s))"
begin

text \<open>Equality of states but for the parser.\<close>

definition same :: "'s \<Rightarrow> 's \<Rightarrow> bool" where
  "same s t \<longleftrightarrow> (\<forall>q. set_parser q s = set_parser q t)"

lemma same_refl [simp]: "same s s"
  by (simp add: same_def)

lemma same_set [simp]: "same (set_parser p s) t \<longleftrightarrow> same s t" "same s (set_parser p t) \<longleftrightarrow> same s t"
  by (simp_all add: same_def)

lemma same_sym: "same s t \<Longrightarrow> same t s"
  by (simp add: same_def)

lemma same_trans: "same s t \<Longrightarrow> same t u \<Longrightarrow> same s u"
  by (simp add: same_def)

lemma same_eq: "same s t \<Longrightarrow> s = set_parser (parser s) t"
  by (metis same_def set_get)

lemma same_handle: "same s t \<Longrightarrow> same (handle f s) (handle f t)"
  by (metis handle_set same_def same_eq)

lemma same_fail: "same s t \<Longrightarrow> same (fail s) (fail t)"
  by (metis fail_set same_def same_eq)

lemma same_halted: "same s t \<Longrightarrow> halted s \<longleftrightarrow> halted t"
  by (metis halted_set same_eq)

text \<open>The specification does not look at the parser.\<close>

lemma stream_run_same:
  assumes "same s t"
  shows "same (fst (stream_run deframe handle fail halted xs s))
              (fst (stream_run deframe handle fail halted xs t)) \<and>
         snd (stream_run deframe handle fail halted xs s) =
           snd (stream_run deframe handle fail halted xs t)"
  using assms
proof (induction "length xs" arbitrary: xs s t rule: less_induct)
  case less
  show ?case
  proof (cases "deframe xs")
    case (Got f n)
    note h = same_handle [OF less.prems, of f]
    show ?thesis
      using Got deframe_got [OF Got] h same_halted [OF h] less.hyps [OF _ h, of "drop n xs"]
      by (auto simp: stream_run.simps [of _ _ _ _ xs])
  qed (use less.prems same_fail in \<open>auto simp: stream_run.simps [of _ _ _ _ xs]\<close>)
qed

text \<open>
  The loop is the specification on the bytes held followed by the bytes read: same state
  but for the parser; and, unless it halted, the parser holds exactly what is left over.
\<close>

lemma loop_spec:
  assumes "invar (parser s)"
  shows "same (loop xs s) (fst (stream_run deframe handle fail halted (held (parser s) @ xs) s)) \<and>
         invar (parser (loop xs s)) \<and>
         (\<not> halted (loop xs s) \<longrightarrow> held (parser (loop xs s)) =
            snd (stream_run deframe handle fail halted (held (parser s) @ xs) s))"
  using assms
proof (induction "2 * length xs + length (held (parser s))" arbitrary: xs s rule: less_induct)
  case less
  let ?p = "parser s" and ?run = "stream_run deframe handle fail halted"
  show ?case
  proof (cases "deframe (held ?p)")
    case NeedMore
    then have pop: "pop ?p = (POP_NEED_MORE, ?p)"
      using less.prems by (simp add: pop_need)
    show ?thesis
    proof (cases "xs = []")
      case True
      with pop have "loop xs s = s" by (subst shape) simp
      with True NeedMore less.prems show ?thesis
        by (simp add: stream_run.simps [of _ _ _ _ "held ?p"])
    next
      case False
      let ?n = "fst (push ?p xs)" and ?s = "set_parser (snd (push ?p xs)) s"
      have n: "0 < ?n" by (rule need_more_room [OF less.prems NeedMore False])
      with pop False have step: "loop xs s = loop (drop ?n xs) ?s"
        by (subst shape) simp
      have inv: "invar (parser ?s)" using less.prems by (simp add: push_invar)
      have held: "held (parser ?s) @ drop ?n xs = held ?p @ xs"
        using less.prems by (simp add: push_split)
      have "length (held (parser ?s)) = length (held ?p) + ?n" and "?n \<le> length xs"
        using less.prems by (auto simp: push_held push_count)
      with n have "2 * length (drop ?n xs) + length (held (parser ?s)) <
          2 * length xs + length (held ?p)"
        by simp
      from less.hyps [OF this inv] stream_run_same [of ?s s "held ?p @ xs"] show ?thesis
        unfolding step held by (auto intro: same_trans)
    qed
  next
    case (Bad e)
    then have "pop ?p = (POP_ERROR e, ?p)" using less.prems by (simp add: pop_bad)
    then have "loop xs s = fail s" by (subst shape) simp
    moreover have "deframe (held ?p @ xs) = deframed.Bad e" by (rule deframe_bad_mono [OF Bad])
    ultimately show ?thesis
      using less.prems by (simp add: stream_run.simps [of _ _ _ _ "held ?p @ xs"] halted_fail fail_invar)
  next
    case (Got f n)
    then obtain p where pop: "pop ?p = (POP_GOT_FRAME f, p)" and hp: "held p = drop n (held ?p)"
      using pop_got [OF less.prems] by (metis prod.collapse)
    from less.prems have inv: "invar p" using pop_invar [of ?p] by (simp add: pop)
    have n: "0 < n" "n \<le> length (held ?p)" using deframe_got [OF Got] by auto
    have got: "deframe (held ?p @ xs) = deframed.Got f n" by (rule deframe_got_mono [OF Got])
    let ?s = "handle f (set_parser p s)"
    have s: "same ?s (handle f s)" by (rule same_handle) simp
    have inv': "invar (parser ?s)" using inv by (simp add: handle_invar)
    show ?thesis
    proof (cases "halted (handle f s)")
      case True
      with pop s have "loop xs s = ?s" by (subst shape) (simp add: same_halted)
      with True got n inv' s show ?thesis
        by (simp add: stream_run.simps [of _ _ _ _ "held ?p @ xs"] same_halted)
    next
      case False
      then have run': "\<not> halted ?s" using s by (simp add: same_halted)
      then have ps: "parser ?s = p" using handle_parser [of f "set_parser p s"] by simp
      from run' pop have step: "loop xs s = loop xs ?s" by (subst shape) simp
      have held: "held (parser ?s) @ xs = drop n (held ?p @ xs)"
        using n by (simp add: hp ps)
      have run: "?run (held ?p @ xs) s = ?run (drop n (held ?p @ xs)) (handle f s)"
        using False got n by (simp add: stream_run.simps [of _ _ _ _ "held ?p @ xs"])
      from n have "2 * length xs + length (held (parser ?s)) < 2 * length xs + length (held ?p)"
        by (simp add: hp ps)
      from less.hyps [OF this inv'] stream_run_same [OF s, of "drop n (held ?p @ xs)"] show ?thesis
        unfolding step run held by (auto intro: same_trans simp del: drop_append)
    qed
  qed
qed

text \<open>A property that handling a deframed frame and failing keep is kept by the loop.\<close>

lemma stream_run_keeps:
  assumes "P s"
    and handle: "\<And>xs f n s. deframe xs = Got f n \<Longrightarrow> P s \<Longrightarrow> P (handle f s)"
    and fail: "\<And>s. P s \<Longrightarrow> P (fail s)"
  shows "P (fst (stream_run deframe handle fail halted xs s))"
  using assms(1)
proof (induction "length xs" arbitrary: xs s rule: less_induct)
  case less
  show ?case
  proof (cases "deframe xs")
    case (Got f n)
    then show ?thesis
      using deframe_got [OF Got] handle [OF Got less.prems] less.hyps [of "drop n xs" "handle f s"]
      by (auto simp: stream_run.simps [of _ _ _ _ xs])
  qed (use less.prems fail in \<open>simp_all add: stream_run.simps [of _ _ _ _ xs]\<close>)
qed

lemma loop_keeps:
  assumes "invar (parser s)" and "P s"
    and "\<And>xs f n s. deframe xs = Got f n \<Longrightarrow> P s \<Longrightarrow> P (handle f s)"
    and "\<And>s. P s \<Longrightarrow> P (fail s)"
    and set: "\<And>p s. P s \<Longrightarrow> P (set_parser p s)"
  shows "P (loop xs s)"
proof -
  let ?t = "loop xs s"
  have "?t = set_parser (parser ?t) (fst (stream_run deframe handle fail halted (held (parser s) @ xs) s))"
    using loop_spec [OF assms(1), of xs] by (blast intro: same_eq)
  also have "P \<dots>" by (rule set, rule stream_run_keeps [OF assms(2-4)])
  finally show ?thesis .
qed

text \<open>
  Accounting for the bytes: a relation between the bytes used so far and the state, kept by
  handling a frame with the bytes it was made of, relates what the loop used to its result.
\<close>

lemma stream_run_trace:
  assumes "\<not> halted s" and "P c s"
    and handle: "\<And>c xs f n s. \<not> halted s \<Longrightarrow> deframe xs = Got f n \<Longrightarrow> P c s \<Longrightarrow>
      P (c @ take n xs) (handle f s)"
    and fail: "\<And>c s. \<not> halted s \<Longrightarrow> P c s \<Longrightarrow> P c (fail s)"
  shows "\<exists>u. xs = u @ snd (stream_run deframe handle fail halted xs s) \<and>
     P (c @ u) (fst (stream_run deframe handle fail halted xs s))"
  using assms(1,2)
proof (induction "length xs" arbitrary: xs c s rule: less_induct)
  case less
  show ?case
  proof (cases "deframe xs")
    case (Got f n)
    have n: "0 < n" "n \<le> length xs" using deframe_got [OF Got] by auto
    have P: "P (c @ take n xs) (handle f s)" by (rule handle [OF less.prems(1) Got less.prems(2)])
    show ?thesis
    proof (cases "halted (handle f s)")
      case True
      with Got n P show ?thesis
        by (intro exI [of _ "take n xs"]) (simp add: stream_run.simps [of _ _ _ _ xs])
    next
      case False
      let ?run = "stream_run deframe handle fail halted (drop n xs) (handle f s)"
      have eq: "stream_run deframe handle fail halted xs s = ?run"
        using Got n False by (simp add: stream_run.simps [of _ _ _ _ xs])
      from n have "length (drop n xs) < length xs" by simp
      from less.hyps [OF this False P] obtain u where
        "drop n xs = u @ snd ?run" "P ((c @ take n xs) @ u) (fst ?run)" by blast
      then show ?thesis
        unfolding eq
        by (intro exI [of _ "take n xs @ u"]) (metis append.assoc append_take_drop_id)
    qed
  qed (use less.prems fail in \<open>simp_all add: stream_run.simps [of _ _ _ _ xs]\<close>)
qed

lemma loop_trace:
  assumes "invar (parser s)" and "\<not> halted s" and "P c s"
    and "\<And>c xs f n s. \<not> halted s \<Longrightarrow> deframe xs = Got f n \<Longrightarrow> P c s \<Longrightarrow>
      P (c @ take n xs) (handle f s)"
    and "\<And>c s. \<not> halted s \<Longrightarrow> P c s \<Longrightarrow> P c (fail s)"
    and set: "\<And>c p s. P c s \<Longrightarrow> P c (set_parser p s)"
  obtains u rest where "held (parser s) @ xs = u @ rest" "P (c @ u) (loop xs s)"
    "invar (parser (loop xs s))" "\<not> halted (loop xs s) \<longrightarrow> held (parser (loop xs s)) = rest"
proof -
  let ?t = "loop xs s"
  note spec = loop_spec [OF assms(1), of xs]
  let ?run = "stream_run deframe handle fail halted (held (parser s) @ xs) s"
  obtain u where u: "held (parser s) @ xs = u @ snd ?run" "P (c @ u) (fst ?run)"
    using stream_run_trace [of s P c "held (parser s) @ xs"] assms(2-5) by blast
  have "?t = set_parser (parser ?t) (fst ?run)" using spec by (blast intro: same_eq)
  with set [OF u(2)] have "P (c @ u) ?t" by metis
  with u(1) spec that show ?thesis by blast
qed

text \<open>Splitting the stream: run on the first part, then on what is left and the second.\<close>

lemma stream_run_append:
  assumes "\<not> halted s"
  shows "stream_run deframe handle fail halted (xs @ ys) s =
     (let (s', rest) = stream_run deframe handle fail halted xs s
      in if halted s' then (s', rest @ ys)
         else stream_run deframe handle fail halted (rest @ ys) s')"
  using assms
proof (induction "length xs" arbitrary: xs s rule: less_induct)
  case less
  show ?case
  proof (cases "deframe xs")
    case NeedMore
    with less.prems show ?thesis by (simp add: stream_run.simps [of _ _ _ _ xs])
  next
    case (Bad e)
    then have "deframe (xs @ ys) = deframed.Bad e" by (rule deframe_bad_mono)
    with Bad show ?thesis by (simp add: stream_run.simps [of _ _ _ _ xs]
          stream_run.simps [of _ _ _ _ "xs @ ys"] halted_fail)
  next
    case (Got f n)
    then have got: "deframe (xs @ ys) = deframed.Got f n" by (rule deframe_got_mono)
    have n: "0 < n" "n \<le> length xs" using deframe_got [OF Got] by auto
    show ?thesis
    proof (cases "halted (handle f s)")
      case True
      with Got got n show ?thesis by (simp add: stream_run.simps [of _ _ _ _ xs]
            stream_run.simps [of _ _ _ _ "xs @ ys"])
    next
      case False
      with Got got n less.hyps [OF _ False, of "drop n xs"] show ?thesis
        by (simp add: stream_run.simps [of _ _ _ _ xs] stream_run.simps [of _ _ _ _ "xs @ ys"])
    qed
  qed
qed

text \<open>The loop does not see how the stream was cut into reads.\<close>

lemma loop_append:
  assumes inv: "invar (parser s)" and run: "\<not> halted s" and more: "\<not> halted (loop xs s)"
  shows "same (loop (xs @ ys) s) (loop ys (loop xs s))"
proof -
  let ?run = "stream_run deframe handle fail halted" and ?t = "loop xs s"
  obtain s' rest where r: "?run (held (parser s) @ xs) s = (s', rest)" by fastforce
  note spec = loop_spec [OF inv, of xs, unfolded r, simplified]
  have s': "\<not> halted s'" using more spec same_halted by blast
  have eq: "?run ((held (parser s) @ xs) @ ys) s = ?run (held (parser ?t) @ ys) s'"
    using stream_run_append [OF run, of "held (parser s) @ xs" ys] s' spec more by (simp add: r)
  have "same (loop (xs @ ys) s) (fst (?run (held (parser ?t) @ ys) s'))"
    using loop_spec [OF inv, of "xs @ ys"] eq by simp
  moreover have "same (fst (?run (held (parser ?t) @ ys) s')) (fst (?run (held (parser ?t) @ ys) ?t))"
    using stream_run_same spec same_sym by blast
  moreover have "same (fst (?run (held (parser ?t) @ ys) ?t)) (loop ys ?t)"
    using loop_spec [of ?t ys] spec same_sym by blast
  ultimately show ?thesis by (blast intro: same_trans)
qed

text \<open>A stream of encoded frames is handled frame by frame, with nothing left over.\<close>

lemma stream_run_frames:
  assumes enc: "\<And>f rest. f \<in> set fs \<Longrightarrow> deframe (enc f @ rest) = Got f (length (enc f))"
    and nil: "deframe [] = NeedMore"
  shows "fst (stream_run deframe handle fail halted (concat (map enc fs)) s) =
     run_frames handle halted fs s"
  using enc
proof (induction fs arbitrary: s)
  case Nil
  with nil show ?case by (simp add: stream_run.simps)
next
  case (Cons f fs)
  have d: "deframe (enc f @ concat (map enc fs)) = Got f (length (enc f))"
    using Cons.prems by simp
  moreover from deframe_got [OF d] have "enc f \<noteq> []" by auto
  moreover have "fst (stream_run deframe handle fail halted (concat (map enc fs)) (handle f s)) =
      run_frames handle halted fs (handle f s)"
    using Cons.prems by (intro Cons.IH) simp
  ultimately show ?case
    by (simp add: stream_run.simps [of _ _ _ _ "enc f @ concat (map enc fs)"])
qed

lemma loop_frames:
  assumes "invar (parser s)" and "held (parser s) = []"
    and "\<And>f rest. f \<in> set fs \<Longrightarrow> deframe (enc f @ rest) = Got f (length (enc f))"
    and "deframe [] = NeedMore"
  shows "same (loop (concat (map enc fs)) s) (run_frames handle halted fs s)"
  using loop_spec [OF assms(1), of "concat (map enc fs)"] stream_run_frames [OF assms(3,4)] assms(2)
  by simp

end

end
