(* ===== verification/Xr_Protocol.thy ===== *)
theory Xr_Protocol
  imports Stream_Parser
begin

text \<open>
  The XR external-radio protocol codec,
  \<^verbatim>\<open>src/third_party/external_radio_protocol/external_radio_protocol.{h,cpp}\<close>: wire constants,
  the radio configuration, frame validation, the encoders and decoders, the unit conversions
  and the bounded streaming parser.  The firmware-side session of the same files is in
  \<open>Xr_Client_Session\<close>.

  A \<^verbatim>\<open>Frame\<close> carries its payload as the list of the \<open>len\<close> bytes that the parser copied; the
  tail of the C array is uninitialised and never read.  The parser keeps the C layout: a
  fixed array of \<open>kMaxFrame\<close> bytes and the count of bytes held, with \<^verbatim>\<open>memcpy\<close> into it and
  \<^verbatim>\<open>memmove\<close> within it.
\<close>

subsection \<open>Wire constants\<close>

definition kMagic0 :: byte where [simp]: "kMagic0 = 0x58"
definition kMagic1 :: byte where [simp]: "kMagic1 = 0x52"
definition kVersion :: byte where [simp]: "kVersion = 0x01"
definition kHeaderSize :: nat where [simp]: "kHeaderSize = 8"
definition kMaxLoraPayload :: u16 where [simp]: "kMaxLoraPayload = 255"
definition kMaxPayload :: u16 where [simp]: "kMaxPayload = 300"
definition kMaxFrame :: nat where [simp]: "kMaxFrame = kHeaderSize + unat kMaxPayload"

definition MSG_HELLO :: byte where [simp]: "MSG_HELLO = 0x01"
definition MSG_HELLO_ACK :: byte where [simp]: "MSG_HELLO_ACK = 0x02"
definition MSG_AUTH_CHALLENGE :: byte where [simp]: "MSG_AUTH_CHALLENGE = 0x03"
definition MSG_AUTH_RESPONSE :: byte where [simp]: "MSG_AUTH_RESPONSE = 0x04"
definition MSG_AUTH_RESULT :: byte where [simp]: "MSG_AUTH_RESULT = 0x05"
definition MSG_CONFIGURE :: byte where [simp]: "MSG_CONFIGURE = 0x06"
definition MSG_CONFIG_RESULT :: byte where [simp]: "MSG_CONFIG_RESULT = 0x07"
definition MSG_RX_PACKET :: byte where [simp]: "MSG_RX_PACKET = 0x08"
definition MSG_TX_REQUEST :: byte where [simp]: "MSG_TX_REQUEST = 0x09"
definition MSG_TX_RESULT :: byte where [simp]: "MSG_TX_RESULT = 0x0A"
definition MSG_PING :: byte where [simp]: "MSG_PING = 0x0B"
definition MSG_PONG :: byte where [simp]: "MSG_PONG = 0x0C"
definition MSG_ERROR :: byte where [simp]: "MSG_ERROR = 0x0D"
definition kMsgTypeMin :: byte where [simp]: "kMsgTypeMin = MSG_HELLO"
definition kMsgTypeMax :: byte where [simp]: "kMsgTypeMax = MSG_ERROR"

definition kAuthNonceSize :: u16 where [simp]: "kAuthNonceSize = 16"
definition kAuthResponseSize :: u16 where [simp]: "kAuthResponseSize = 32"
definition AUTH_OK :: byte where [simp]: "AUTH_OK = 0x00"
definition AUTH_FAIL :: byte where [simp]: "AUTH_FAIL = 0x01"
definition CFG_OK :: byte where [simp]: "CFG_OK = 0x00"
definition CFG_UNSUPPORTED :: byte where [simp]: "CFG_UNSUPPORTED = 0x01"
definition CFG_INVALID :: byte where [simp]: "CFG_INVALID = 0x02"
definition TXR_SUCCESS :: byte where [simp]: "TXR_SUCCESS = 0x00"
definition TXR_CHANNEL_BUSY :: byte where [simp]: "TXR_CHANNEL_BUSY = 0x01"
definition TXR_TIMEOUT :: byte where [simp]: "TXR_TIMEOUT = 0x02"
definition TXR_RADIO_ERROR :: byte where [simp]: "TXR_RADIO_ERROR = 0x03"
definition kTxResultMax :: byte where [simp]: "kTxResultMax = TXR_RADIO_ERROR"
definition kWireErrorMax :: byte where [simp]: "kWireErrorMax = 0x03"

datatype ErrorCode =
    ERR_NONE | ERR_NULL_ARG | ERR_BAD_MAGIC | ERR_BAD_VERSION | ERR_BAD_LENGTH
  | ERR_UNKNOWN_TYPE | ERR_BAD_SEQ | ERR_BAD_FIELD | ERR_BAD_STATE | ERR_AUTH | ERR_CONFIG
  | ERR_REMOTE | ERR_TIMEOUT

subsection \<open>Big-endian integers\<close>

definition put16 :: "u16 \<Rightarrow> byte list" where
  "put16 v = [byte16 8 v, byte16 0 v]"

definition put32 :: "u32 \<Rightarrow> byte list" where
  "put32 v = [byte32 24 v, byte32 16 v, byte32 8 v, byte32 0 v]"

definition get16 :: "byte list \<Rightarrow> nat \<Rightarrow> u16" where
  "get16 p i = join16 (p ! i) (p ! (i + 1))"

definition get32 :: "byte list \<Rightarrow> nat \<Rightarrow> u32" where
  "get32 p i = join32 (p ! i) (p ! (i + 1)) (p ! (i + 2)) (p ! (i + 3))"

lemma length_put [simp]: "length (put16 v) = 2" "length (put32 w) = 4"
  by (simp_all add: put16_def put32_def)

subsection \<open>Radio configuration\<close>

record RadioConfig =
  freq_hz :: u32
  bw_hz :: u32
  sf :: byte
  cr_denom :: byte
  sync_word :: u16
  preamble :: u16
  tx_power_dbm :: i8
  crc :: byte
  ldro :: byte

definition kConfigPayloadSize :: u16 where
  [simp]: "kConfigPayloadSize = 17"

definition isKnownType :: "byte \<Rightarrow> bool" where
  "isKnownType t \<longleftrightarrow> t \<ge> kMsgTypeMin \<and> t \<le> kMsgTypeMax"

definition isBool :: "byte \<Rightarrow> bool" where
  "isBool v \<longleftrightarrow> v = 0 \<or> v = 1"

definition configEqual :: "RadioConfig \<Rightarrow> RadioConfig \<Rightarrow> bool" where
  "configEqual a b \<longleftrightarrow> freq_hz a = freq_hz b \<and> bw_hz a = bw_hz b \<and> sf a = sf b \<and>
     cr_denom a = cr_denom b \<and> sync_word a = sync_word b \<and> preamble a = preamble b \<and>
     tx_power_dbm a = tx_power_dbm b \<and> crc a = crc b \<and> ldro a = ldro b"

definition radioConfigValid :: "RadioConfig \<Rightarrow> bool" where
  "radioConfigValid c \<longleftrightarrow> isBool (crc c) \<and> isBool (ldro c)"

lemma configEqual_iff [simp]: "configEqual a b \<longleftrightarrow> a = b"
  by (auto simp: configEqual_def intro: RadioConfig.equality)

definition packConfig :: "RadioConfig \<Rightarrow> byte list" where
  "packConfig c = put32 (freq_hz c) @ put32 (bw_hz c) @ [sf c, cr_denom c] @
     put16 (sync_word c) @ put16 (preamble c) @ [tx_power_dbm c, crc c, ldro c]"

definition unpackConfig :: "byte list \<Rightarrow> RadioConfig option" where
  "unpackConfig p =
     (if \<not> isBool (p ! 15) \<or> \<not> isBool (p ! 16) then None
      else Some \<lparr>freq_hz = get32 p 0, bw_hz = get32 p 4, sf = p ! 8, cr_denom = p ! 9,
        sync_word = get16 p 10, preamble = get16 p 12, tx_power_dbm = p ! 14,
        crc = p ! 15, ldro = p ! 16\<rparr>)"

lemma length_packConfig [simp]: "length (packConfig c) = 17"
  by (simp add: packConfig_def)

lemma unpack_packConfig:
  "radioConfigValid c \<Longrightarrow> unpackConfig (packConfig c @ rest) = Some c"
  by (simp add: packConfig_def unpackConfig_def put16_def put32_def get16_def get32_def
      radioConfigValid_def)

lemma upt_17: "[0..<17] = [0, 1, 2, 3, 4, 5, 6, 7, 8, 9, 10, 11, 12, 13, 14, 15, 16]"
  by code_simp

lemma pack_unpackConfig:
  assumes "length p = 17" and "unpackConfig p = Some c"
  shows "packConfig c = p"
proof -
  from assms(2) have "packConfig c = map ((!) p) [0..<17]"
    by (auto simp: packConfig_def unpackConfig_def put16_def put32_def get16_def get32_def upt_17
        numeral_2_eq_2 [symmetric]
        split: if_splits)
  also have "\<dots> = p" using assms(1) by (metis map_nth)
  finally show ?thesis .
qed

text \<open>
  \<^verbatim>\<open>buildRadioConfig\<close> over the integer parameters.  The two conversions of a floating-point
  value to integer Hz (\<^verbatim>\<open>scaleToHz\<close>, double arithmetic) are arguments: \<open>None\<close> where
  \<^verbatim>\<open>scaleToHz\<close> returns false.
\<close>

definition buildRadioConfig ::
  "u32 option \<Rightarrow> u32 option \<Rightarrow> int \<Rightarrow> int \<Rightarrow> int \<Rightarrow> int \<Rightarrow> int \<Rightarrow> bool \<Rightarrow> RadioConfig option" where
  "buildRadioConfig freq bw sf' cr sync pre pw crc' =
     (case freq of None \<Rightarrow> None | Some freq_hz' \<Rightarrow>
      (case bw of None \<Rightarrow> None | Some bw_hz' \<Rightarrow>
       if sf' < 6 \<or> sf' > 12 then None
       else if cr < 5 \<or> cr > 8 then None
       else if sync < 0 \<or> sync > 0xFFFF then None
       else if pre < 1 \<or> pre > 0xFFFF then None
       else if pw < -128 \<or> pw > 127 then None
       else
         let c = \<lparr>freq_hz = freq_hz', bw_hz = bw_hz', sf = word_of_int sf',
               cr_denom = word_of_int cr, sync_word = word_of_int sync,
               preamble = word_of_int pre, tx_power_dbm = word_of_int pw,
               crc = (if crc' then 1 else 0),
               ldro = (if push_bit (nat sf') (1 :: u64) * 1000 > ucast bw_hz' * 16
                       then 1 else 0)\<rparr>
         in if \<not> radioConfigValid c then None else Some c))"

subsection \<open>Frames\<close>

record Frame =
  ftype :: byte
  fseq :: u16
  flen :: u16
  fpayload :: "byte list"

definition frame_wf :: "Frame \<Rightarrow> bool" where
  "frame_wf f \<longleftrightarrow> length (fpayload f) = unat (flen f) \<and> flen f \<le> kMaxPayload"

definition validate :: "Frame \<Rightarrow> ErrorCode" where
  "validate f =
     (if \<not> isKnownType (ftype f) then ERR_UNKNOWN_TYPE
      else
        let isTx = (ftype f = MSG_TX_REQUEST \<or> ftype f = MSG_TX_RESULT) in
        if isTx \<and> fseq f = 0 then ERR_BAD_SEQ
        else if \<not> isTx \<and> fseq f \<noteq> 0 then ERR_BAD_SEQ
        else if ftype f = MSG_HELLO \<or> ftype f = MSG_HELLO_ACK then
          (if flen f \<noteq> 1 then ERR_BAD_LENGTH
           else if fpayload f ! 0 \<noteq> kVersion then ERR_BAD_VERSION else ERR_NONE)
        else if ftype f = MSG_AUTH_CHALLENGE then
          (if flen f = kAuthNonceSize then ERR_NONE else ERR_BAD_LENGTH)
        else if ftype f = MSG_AUTH_RESPONSE then
          (if flen f = kAuthResponseSize then ERR_NONE else ERR_BAD_LENGTH)
        else if ftype f = MSG_AUTH_RESULT then
          (if flen f \<noteq> 1 then ERR_BAD_LENGTH
           else if fpayload f ! 0 \<noteq> AUTH_OK \<and> fpayload f ! 0 \<noteq> AUTH_FAIL then ERR_BAD_FIELD
           else ERR_NONE)
        else if ftype f = MSG_CONFIGURE then
          (if flen f \<noteq> kConfigPayloadSize then ERR_BAD_LENGTH
           else if \<not> isBool (fpayload f ! 15) \<or> \<not> isBool (fpayload f ! 16) then ERR_BAD_FIELD
           else ERR_NONE)
        else if ftype f = MSG_CONFIG_RESULT then
          (if flen f = 1 then (if fpayload f ! 0 \<noteq> CFG_OK then ERR_NONE else ERR_BAD_LENGTH)
           else if flen f = 1 + kConfigPayloadSize then
             (if fpayload f ! 0 \<noteq> CFG_OK then ERR_BAD_FIELD
              else if \<not> isBool (fpayload f ! 16) \<or> \<not> isBool (fpayload f ! 17) then ERR_BAD_FIELD
              else ERR_NONE)
           else ERR_BAD_LENGTH)
        else if ftype f = MSG_RX_PACKET then
          (if flen f < 6 then ERR_BAD_LENGTH
           else let dlen = get16 (fpayload f) 4 in
             if dlen > kMaxLoraPayload then ERR_BAD_LENGTH
             else if flen f \<noteq> 6 + dlen then ERR_BAD_LENGTH else ERR_NONE)
        else if ftype f = MSG_TX_REQUEST then
          (if flen f \<le> kMaxLoraPayload then ERR_NONE else ERR_BAD_LENGTH)
        else if ftype f = MSG_TX_RESULT then
          (if flen f \<noteq> 1 then ERR_BAD_LENGTH
           else if fpayload f ! 0 > kTxResultMax then ERR_BAD_FIELD else ERR_NONE)
        else if ftype f = MSG_PING \<or> ftype f = MSG_PONG then
          (if flen f = 0 then ERR_NONE else ERR_BAD_LENGTH)
        else if ftype f = MSG_ERROR then
          (if flen f \<noteq> 1 then ERR_BAD_LENGTH
           else if fpayload f ! 0 > kWireErrorMax then ERR_BAD_FIELD else ERR_NONE)
        else ERR_UNKNOWN_TYPE)"

subsection \<open>Encoding\<close>

text \<open>
  The output buffer is its capacity (\<open>None\<close> for a null pointer); the result is the bytes
  written, \<open>None\<close> where the source returns 0.
\<close>

definition encode :: "nat option \<Rightarrow> byte \<Rightarrow> u16 \<Rightarrow> byte list option \<Rightarrow> u16 \<Rightarrow> byte list option" where
  "encode out ty seq payload len =
     (case out of None \<Rightarrow> None
      | Some out_cap \<Rightarrow>
          if len > kMaxPayload then None
          else if len > 0 \<and> payload = None then None
          else let total = kHeaderSize + unat len in
            if out_cap < total then None
            else Some ([kMagic0, kMagic1, kVersion, ty] @ put16 len @ put16 seq @
              (if len \<noteq> 0 then take (unat len) (the payload) else [])))"

definition encodeHello :: "nat option \<Rightarrow> byte list option" where
  "encodeHello out = encode out MSG_HELLO 0 (Some [kVersion]) 1"

definition encodeAuthResponse :: "nat option \<Rightarrow> byte list option \<Rightarrow> byte list option" where
  "encodeAuthResponse out hmac32 =
     (if hmac32 = None then None else encode out MSG_AUTH_RESPONSE 0 hmac32 kAuthResponseSize)"

definition encodeConfigure :: "nat option \<Rightarrow> RadioConfig \<Rightarrow> byte list option" where
  "encodeConfigure out cfg =
     (if \<not> radioConfigValid cfg then None
      else encode out MSG_CONFIGURE 0 (Some (packConfig cfg)) kConfigPayloadSize)"

definition encodeTxRequest ::
  "nat option \<Rightarrow> u16 \<Rightarrow> byte list option \<Rightarrow> u16 \<Rightarrow> byte list option" where
  "encodeTxRequest out seq data len =
     (if seq = 0 then None
      else if len > kMaxLoraPayload then None
      else if len > 0 \<and> data = None then None
      else encode out MSG_TX_REQUEST seq data len)"

definition encodePong :: "nat option \<Rightarrow> byte list option" where
  "encodePong out = encode out MSG_PONG 0 None 0"

subsection \<open>Decoding\<close>

record RxPacket =
  rx_rssi :: i16
  rx_snr :: i16
  rx_len :: u16
  rx_data :: "byte list"

definition decodeConfig :: "Frame \<Rightarrow> RadioConfig option" where
  "decodeConfig f =
     (if ftype f \<noteq> MSG_CONFIGURE \<or> flen f \<noteq> kConfigPayloadSize then None
      else unpackConfig (fpayload f))"

definition decodeRxPacket :: "Frame \<Rightarrow> RxPacket option" where
  "decodeRxPacket f =
     (if ftype f \<noteq> MSG_RX_PACKET \<or> flen f < 6 then None
      else let dlen = get16 (fpayload f) 4 in
        if dlen > kMaxLoraPayload then None
        else if flen f \<noteq> 6 + dlen then None
        else Some \<lparr>rx_rssi = get16 (fpayload f) 0, rx_snr = get16 (fpayload f) 2, rx_len = dlen,
               rx_data = take (unat dlen) (drop 6 (fpayload f))\<rparr>)"

definition decodeConfigEcho :: "Frame \<Rightarrow> RadioConfig option" where
  "decodeConfigEcho f =
     (if ftype f \<noteq> MSG_CONFIG_RESULT then None
      else if flen f \<noteq> 1 + kConfigPayloadSize then None
      else if fpayload f ! 0 \<noteq> CFG_OK then None
      else unpackConfig (drop 1 (fpayload f)))"

text \<open>C++ integer division truncates toward zero.\<close>

definition tdiv :: "int \<Rightarrow> int \<Rightarrow> int" where
  "tdiv a b = sgn a * sgn b * (\<bar>a\<bar> div \<bar>b\<bar>)"

definition rssiCentiToDbm :: "i16 \<Rightarrow> i16" where
  "rssiCentiToDbm r = word_of_int (tdiv (sint r) 100)"

definition snrCentiToDb :: "i16 \<Rightarrow> i8" where
  "snrCentiToDb s =
     (let v = tdiv (sint s) 100;
          v = (if v > 127 then 127 else v);
          v = (if v < -128 then -128 else v)
      in word_of_int v)"

definition rxPayloadAcceptable :: "u16 \<Rightarrow> bool" where
  "rxPayloadAcceptable len \<longleftrightarrow> len > 0 \<and> len \<le> kMaxLoraPayload"

subsection \<open>The streaming parser\<close>

datatype ParserPushStatus =
  PARSER_PUSH_OK | PARSER_PUSH_NEED_DRAIN | PARSER_PUSH_INVALID_INPUT

record Parser =
  pbuf :: "byte list"
  phave :: nat

definition parserReset :: "Parser \<Rightarrow> Parser" where
  "parserReset p = p\<lparr>phave := 0\<rparr>"

text \<open>A parser whose array has some contents, as after construction.\<close>

definition parser_init :: Parser where
  "parser_init = parserReset \<lparr>pbuf = replicate kMaxFrame 0, phave = 0\<rparr>"

definition parserPush ::
  "Parser \<Rightarrow> byte list option \<Rightarrow> nat \<Rightarrow> ParserPushStatus \<times> nat \<times> Parser" where
  "parserPush p data n =
     (if n = 0 then (PARSER_PUSH_OK, 0, p)
      else case data of
        None \<Rightarrow> (PARSER_PUSH_INVALID_INPUT, 0, p)
      | Some d \<Rightarrow>
          let space = length (pbuf p) - phave p;
              take' = (if n < space then n else space);
              (consumed, p') =
                (if take' \<noteq> 0
                 then (take', p\<lparr>pbuf := memcpy (pbuf p) (phave p) d take',
                                phave := phave p + take'\<rparr>)
                 else (0, p))
          in (if take' = n then PARSER_PUSH_OK else PARSER_PUSH_NEED_DRAIN, consumed, p'))"

definition parserPop :: "Parser \<Rightarrow> (Frame, ErrorCode) PopResult \<times> Parser" where
  "parserPop p =
     (let buf = pbuf p in
      if phave p < kHeaderSize then (POP_NEED_MORE, p)
      else if buf ! 0 \<noteq> kMagic0 \<or> buf ! 1 \<noteq> kMagic1 then (POP_ERROR ERR_BAD_MAGIC, p)
      else if buf ! 2 \<noteq> kVersion then (POP_ERROR ERR_BAD_VERSION, p)
      else if \<not> isKnownType (buf ! 3) then (POP_ERROR ERR_UNKNOWN_TYPE, p)
      else let len = get16 buf 4 in
        if len > kMaxPayload then (POP_ERROR ERR_BAD_LENGTH, p)
        else let total = kHeaderSize + unat len in
          if phave p < total then (POP_NEED_MORE, p)
          else
            let out = \<lparr>ftype = buf ! 3, fseq = get16 buf 6, flen = len,
                       fpayload = take (unat len) (drop kHeaderSize buf)\<rparr>;
                rest = phave p - total;
                buf' = (if rest \<noteq> 0 then memcpy buf 0 (drop total buf) rest else buf)
            in (POP_GOT_FRAME out, p\<lparr>pbuf := buf', phave := rest\<rparr>))"

text \<open>What the parser decides on the bytes it holds.\<close>

definition xr_deframe :: "byte list \<Rightarrow> (Frame, ErrorCode) deframed" where
  "xr_deframe xs =
     (if length xs < kHeaderSize then NeedMore
      else if xs ! 0 \<noteq> kMagic0 \<or> xs ! 1 \<noteq> kMagic1 then Bad ERR_BAD_MAGIC
      else if xs ! 2 \<noteq> kVersion then Bad ERR_BAD_VERSION
      else if \<not> isKnownType (xs ! 3) then Bad ERR_UNKNOWN_TYPE
      else let len = get16 xs 4 in
        if len > kMaxPayload then Bad ERR_BAD_LENGTH
        else if length xs < kHeaderSize + unat len then NeedMore
        else Got \<lparr>ftype = xs ! 3, fseq = get16 xs 6, flen = len,
                  fpayload = take (unat len) (drop kHeaderSize xs)\<rparr> (kHeaderSize + unat len))"

definition parser_invar :: "Parser \<Rightarrow> bool" where
  "parser_invar p \<longleftrightarrow> length (pbuf p) = kMaxFrame \<and> phave p \<le> kMaxFrame"

definition parser_held :: "Parser \<Rightarrow> byte list" where
  "parser_held p = take (phave p) (pbuf p)"

definition parser_push :: "Parser \<Rightarrow> byte list \<Rightarrow> nat \<times> Parser" where
  "parser_push p xs = snd (parserPush p (Some xs) (length xs))"

lemma parser_invar_init [simp]: "parser_invar parser_init"
  by (simp add: parser_init_def parser_invar_def parserReset_def)

lemma parser_held_reset [simp]: "parser_held (parserReset p) = []"
  by (simp add: parser_held_def parserReset_def)

lemma parser_invar_reset [simp]: "parser_invar p \<Longrightarrow> parser_invar (parserReset p)"
  by (simp add: parser_invar_def parserReset_def)

lemma length_parser_held: "parser_invar p \<Longrightarrow> length (parser_held p) = phave p"
  by (simp add: parser_held_def parser_invar_def)

lemma parser_push_eq:
  assumes "parser_invar p"
  shows "parser_push p xs =
     (let n = min (length xs) (kMaxFrame - phave p)
      in (n, if n = 0 then p
             else p\<lparr>pbuf := memcpy (pbuf p) (phave p) xs n, phave := phave p + n\<rparr>))"
  using assms by (auto simp: parser_push_def parserPush_def parser_invar_def Let_def min_def)

text \<open>Reads of the header only look at bytes that are held.\<close>

lemma parserPop_deframe:
  assumes "parser_invar p"
  shows "parserPop p =
     (case xr_deframe (parser_held p) of
        NeedMore \<Rightarrow> (POP_NEED_MORE, p)
      | Bad e \<Rightarrow> (POP_ERROR e, p)
      | Got f n \<Rightarrow> (POP_GOT_FRAME f,
          p\<lparr>pbuf := (if phave p = n then pbuf p
                     else memcpy (pbuf p) 0 (drop n (pbuf p)) (phave p - n)),
            phave := phave p - n\<rparr>))"
proof (cases "phave p < 8")
  case True
  with assms show ?thesis
    by (simp add: parserPop_def xr_deframe_def length_parser_held)
next
  case False
  have nth: "parser_held p ! i = pbuf p ! i" if "i < 8" for i
    using that False assms by (simp add: parser_held_def)
  have g: "get16 (parser_held p) 4 = get16 (pbuf p) 4" "get16 (parser_held p) 6 = get16 (pbuf p) 6"
    by (simp_all add: get16_def nth)
  have pay: "take n (drop 8 (parser_held p)) = take n (drop 8 (pbuf p))" if "8 + n \<le> phave p" for n
    using that by (simp add: parser_held_def drop_take take_take)
  show ?thesis
    using False assms
    by (simp add: parserPop_def xr_deframe_def length_parser_held nth g pay Let_def)
qed

lemma xr_deframe_got:
  assumes "xr_deframe xs = Got f n"
  shows "n = 8 + unat (flen f)" "n \<le> length xs" "frame_wf f" "isKnownType (ftype f)"
  using assms by (auto simp: xr_deframe_def frame_wf_def Let_def word_le_nat_alt word_less_nat_alt split: if_splits)

text \<open>Once decided, further bytes do not change the decision.\<close>

lemma xr_deframe_append:
  assumes "xr_deframe xs \<noteq> NeedMore"
  shows "xr_deframe (xs @ ys) = xr_deframe xs"
proof -
  have len: "\<not> length xs < 8" using assms by (auto simp: xr_deframe_def)
  then have nth: "(xs @ ys) ! i = xs ! i" if "i < 8" for i
    using that by (simp add: nth_append)
  have g: "get16 (xs @ ys) 4 = get16 xs 4" "get16 (xs @ ys) 6 = get16 xs 6"
    by (simp_all add: get16_def nth)
  have pay: "take n (drop 8 (xs @ ys)) = take n (drop 8 xs)" if "8 + n \<le> length xs" for n
    using that by simp
  show ?thesis
    using len assms unfolding xr_deframe_def Let_def kHeaderSize_def
    by (simp add: nth g pay del: drop_append split del: if_split cong: if_cong)
       (auto simp: pay simp del: drop_append split: if_splits)
qed

interpretation xrp: frame_parser parser_invar parser_held kMaxFrame parser_push parserPop xr_deframe
proof unfold_locales
  fix p :: Parser and xs :: "byte list" assume inv: "parser_invar p"
  then show "fst (parser_push p xs) = min (length xs) (kMaxFrame - length (parser_held p))"
    by (simp add: parser_push_eq length_parser_held Let_def)
  from inv show "parser_held (snd (parser_push p xs)) =
      parser_held p @ take (fst (parser_push p xs)) xs"
    by (auto simp: parser_push_eq Let_def parser_held_def parser_invar_def)
  from inv show "parser_invar (snd (parser_push p xs))"
    by (auto simp: parser_push_eq Let_def parser_invar_def)
next
  fix p :: Parser and f n assume inv: "parser_invar p" and got: "xr_deframe (parser_held p) = Got f n"
  have n: "n \<le> phave p" using xr_deframe_got(2) [OF got] inv by (simp add: length_parser_held)
  have "take (phave p - n) (memcpy (pbuf p) 0 (drop n (pbuf p)) (phave p - n)) =
      take (phave p - n) (drop n (pbuf p))"
    using take_memcpy [of 0 "phave p - n" "pbuf p" "drop n (pbuf p)"] inv n
    by (auto simp: parser_invar_def)
  with n got inv show "fst (parserPop p) = POP_GOT_FRAME f \<and>
      parser_held (snd (parserPop p)) = drop n (parser_held p)"
    by (simp add: parserPop_deframe parser_held_def drop_take)
next
  fix p :: Parser assume inv: "parser_invar p"
  show "parser_invar (snd (parserPop p))"
  proof (cases "xr_deframe (parser_held p)")
    case (Got f n)
    then show ?thesis
      using inv xr_deframe_got(2) [OF Got]
      by (simp add: parserPop_deframe length_parser_held) (auto simp: parser_invar_def)
  qed (simp_all add: parserPop_deframe inv)
next
  fix xs ys :: "byte list" and f n assume got: "xr_deframe xs = Got f n"
  show "0 < n \<and> n \<le> length xs" using xr_deframe_got(1,2) [OF got] by simp
  from got show "xr_deframe (xs @ ys) = Got f n" by (simp add: xr_deframe_append)
next
  fix xs ys :: "byte list" and e assume "xr_deframe xs = Bad e"
  then show "xr_deframe (xs @ ys) = Bad e" by (simp add: xr_deframe_append)
next
  fix xs :: "byte list" assume "kMaxFrame \<le> length xs"
  then show "xr_deframe xs \<noteq> NeedMore"
    by (auto simp: xr_deframe_def Let_def word_less_nat_alt)
qed (simp_all add: parserPop_deframe length_parser_held, simp add: parser_invar_def)

subsection \<open>Encoding and deframing\<close>

text \<open>The bytes of a frame on the wire.\<close>

definition frame_bytes :: "Frame \<Rightarrow> byte list" where
  "frame_bytes f = [kMagic0, kMagic1, kVersion, ftype f] @ put16 (flen f) @ put16 (fseq f) @
     fpayload f"

lemma length_frame_bytes: "length (frame_bytes f) = 8 + length (fpayload f)"
  by (simp add: frame_bytes_def)

lemma encode_frame:
  assumes "frame_wf f" and "8 + unat (flen f) \<le> cap"
  shows "encode (Some cap) (ftype f) (fseq f) (Some (fpayload f)) (flen f) = Some (frame_bytes f)"
  using assms by (auto simp: encode_def frame_bytes_def frame_wf_def Let_def)

lemma encode_Some_iff:
  "encode (Some cap) ty seq payload len = Some bs \<longleftrightarrow>
     len \<le> kMaxPayload \<and> (len = 0 \<or> payload \<noteq> None) \<and> 8 + unat len \<le> cap \<and>
     bs = [kMagic0, kMagic1, kVersion, ty] @ put16 len @ put16 seq @
       (if len \<noteq> 0 then take (unat len) (the payload) else [])"
  by (auto simp: encode_def Let_def word_neq_0_conv)

text \<open>A frame at the front of the stream is recovered, whatever follows it.\<close>

lemma xr_deframe_frame_bytes:
  assumes "frame_wf f" and "isKnownType (ftype f)"
  shows "xr_deframe (frame_bytes f @ rest) = Got f (length (frame_bytes f))"
  using assms
  by (cases f)
     (simp add: xr_deframe_def frame_bytes_def frame_wf_def put16_def get16_def Let_def not_less)

text \<open>Conversely, the bytes the deframer takes are those of the frame it returns.\<close>

lemma xr_deframe_take:
  assumes "xr_deframe xs = Got f n"
  shows "take n xs = frame_bytes f"
proof -
  have len: "8 \<le> length xs" and ty: "ftype f = xs ! 3" and sq: "fseq f = get16 xs 6"
    and ln: "flen f = get16 xs 4" and pl: "fpayload f = take (unat (flen f)) (drop 8 xs)"
    and hd: "xs ! 0 = 0x58" "xs ! 1 = 0x52" "xs ! 2 = 1"
    using assms by (auto simp: xr_deframe_def Let_def split: if_splits)
  have n: "n = 8 + unat (flen f)" by (rule xr_deframe_got [OF assms])
  have "take 8 xs = map ((!) xs) [0..<8]"
    using len by (metis map_nth min.absorb2 length_take nth_take_lemma take_map take_upt
        add_0 le_add2 nth_map_upt)
  also have "[0..<8] = [0, 1, 2, 3, 4, 5, 6, 7 :: nat]" by code_simp
  finally have "take 8 xs = [0x58, 0x52, 1, ftype f] @ put16 (flen f) @ put16 (fseq f)"
    using hd by (simp add: ty sq ln put16_def get16_def)
  then show ?thesis
    unfolding n frame_bytes_def pl by (simp add: take_add)
qed

end
