(* ===== verification/Xr_Client_Session.thy ===== *)
theory Xr_Client_Session
  imports Xr_Protocol
begin

text \<open>
  The firmware side of the protocol, \<^verbatim>\<open>extradio::Session\<close> of
  \<^verbatim>\<open>src/third_party/external_radio_protocol/external_radio_protocol.{h,cpp}\<close>: the state machine
  that consumes the bridge's frames and tells the transport what to do.  The array of a
  received packet is the list of its \<open>rx_len\<close> valid bytes.
\<close>

subsection \<open>State\<close>

datatype CState =
    ST_DISCONNECTED | ST_CONNECTING | ST_HANDSHAKE | ST_AUTHENTICATING | ST_CONFIGURING
  | ST_READY_RX | ST_TX_PENDING | ST_DEGRADED

datatype CEvent =
    EV_NONE | EV_SEND_HELLO | EV_SEND_AUTH | EV_SEND_CONFIG | EV_READY | EV_RX | EV_TX_DONE
  | EV_SEND_PONG | EV_NEED_DISCONNECT

datatype CTxOutcome =
    TXO_NONE | TXO_SUCCESS | TXO_CHANNEL_BUSY | TXO_TIMEOUT | TXO_RADIO_ERROR | TXO_UNKNOWN

datatype TimeoutKind = TO_HANDSHAKE | TO_AUTH | TO_CONFIG | TO_PENDING_TX

record Session =
  cs_state :: CState
  cs_tx_in_flight :: bool
  cs_tx_seq :: u16
  cs_next_seq :: u16
  have_cfg :: bool
  cs_cfg :: RadioConfig
  cs_nonce :: "byte list"
  last_rx :: RxPacket
  last_tx_outcome :: CTxOutcome
  last_err :: ErrorCode

subsection \<open>Operations\<close>

definition clearVolatile :: "Session \<Rightarrow> Session" where
  "clearVolatile s =
     s\<lparr>cs_state := ST_DISCONNECTED, cs_tx_in_flight := False, cs_tx_seq := 0, cs_next_seq := 1,
       last_tx_outcome := TXO_NONE, last_err := ERR_NONE, cs_nonce := replicate 16 0,
       last_rx := \<lparr>rx_rssi = 0, rx_snr = 0, rx_len = 0, rx_data = []\<rparr>\<rparr>"

definition reset :: "Session \<Rightarrow> Session" where
  "reset s = clearVolatile (s\<lparr>have_cfg := False,
     cs_cfg := \<lparr>freq_hz = 0, bw_hz = 0, sf = 0, cr_denom = 0, sync_word = 0, preamble = 0,
       tx_power_dbm = 0, crc = 0, ldro = 0\<rparr>\<rparr>)"

definition setDesiredConfig :: "RadioConfig \<Rightarrow> Session \<Rightarrow> bool \<times> Session" where
  "setDesiredConfig cfg s =
     (if cs_state s \<noteq> ST_DISCONNECTED then (False, s)
      else if \<not> radioConfigValid cfg then (False, s)
      else (True, s\<lparr>cs_cfg := cfg, have_cfg := True\<rparr>))"

definition fail :: "ErrorCode \<Rightarrow> Session \<Rightarrow> CEvent \<times> Session" where
  "fail reason s =
     (let s = (if cs_tx_in_flight s
               then s\<lparr>last_tx_outcome := TXO_UNKNOWN, cs_tx_in_flight := False\<rparr> else s)
      in (EV_NEED_DISCONNECT, s\<lparr>last_err := reason, cs_state := ST_DEGRADED\<rparr>))"

definition onConnecting :: "Session \<Rightarrow> CEvent \<times> Session" where
  "onConnecting s =
     (if cs_state s \<noteq> ST_DISCONNECTED then (EV_NONE, s)
      else (EV_NONE, s\<lparr>cs_state := ST_CONNECTING\<rparr>))"

definition onConnected :: "Session \<Rightarrow> CEvent \<times> Session" where
  "onConnected s =
     (if cs_state s \<noteq> ST_CONNECTING \<and> cs_state s \<noteq> ST_DISCONNECTED then (EV_NONE, s)
      else (EV_SEND_HELLO, (clearVolatile s)\<lparr>cs_state := ST_HANDSHAKE\<rparr>))"

definition onDisconnected :: "Session \<Rightarrow> bool \<times> Session" where
  "onDisconnected s =
     (let tx_was_pending = cs_tx_in_flight s; s = clearVolatile s
      in (tx_was_pending, if tx_was_pending then s\<lparr>last_tx_outcome := TXO_UNKNOWN\<rparr> else s))"

definition onTimeout :: "TimeoutKind \<Rightarrow> Session \<Rightarrow> CEvent \<times> Session" where
  "onTimeout kind s =
     (case kind of
        TO_HANDSHAKE \<Rightarrow>
          if cs_state s = ST_CONNECTING \<or> cs_state s = ST_HANDSHAKE then fail ERR_TIMEOUT s
          else (EV_NONE, s)
      | TO_AUTH \<Rightarrow> if cs_state s = ST_AUTHENTICATING then fail ERR_TIMEOUT s else (EV_NONE, s)
      | TO_CONFIG \<Rightarrow> if cs_state s = ST_CONFIGURING then fail ERR_TIMEOUT s else (EV_NONE, s)
      | TO_PENDING_TX \<Rightarrow> if cs_state s = ST_TX_PENDING then fail ERR_TIMEOUT s else (EV_NONE, s))"

definition tx_code :: "byte \<Rightarrow> CTxOutcome" where
  "tx_code c =
     (if c = TXR_SUCCESS then TXO_SUCCESS
      else if c = TXR_CHANNEL_BUSY then TXO_CHANNEL_BUSY
      else if c = TXR_TIMEOUT then TXO_TIMEOUT
      else TXO_RADIO_ERROR)"

definition on_rx_packet :: "Frame \<Rightarrow> Session \<Rightarrow> CEvent \<times> Session" where
  "on_rx_packet f s =
     (case decodeRxPacket f of
        None \<Rightarrow> fail ERR_BAD_LENGTH s
      | Some rx \<Rightarrow> (EV_RX, s\<lparr>last_rx := rx\<rparr>))"

definition onFrame :: "Frame \<Rightarrow> Session \<Rightarrow> CEvent \<times> Session" where
  "onFrame f s =
     (let err = validate f in
      if err \<noteq> ERR_NONE then fail err s
      else if ftype f = MSG_ERROR then fail ERR_REMOTE s
      else if ftype f = MSG_PING then
        (if cs_state s = ST_READY_RX \<or> cs_state s = ST_TX_PENDING then (EV_SEND_PONG, s)
         else fail ERR_BAD_STATE s)
      else if ftype f = MSG_PONG then fail ERR_BAD_STATE s
      else case cs_state s of
        ST_HANDSHAKE \<Rightarrow>
          if ftype f = MSG_HELLO_ACK then (EV_NONE, s\<lparr>cs_state := ST_AUTHENTICATING\<rparr>)
          else fail ERR_BAD_STATE s
      | ST_AUTHENTICATING \<Rightarrow>
          if ftype f = MSG_AUTH_CHALLENGE then
            (EV_SEND_AUTH, s\<lparr>cs_nonce := take (unat kAuthNonceSize) (fpayload f)\<rparr>)
          else if ftype f = MSG_AUTH_RESULT then
            (if fpayload f ! 0 \<noteq> AUTH_OK then fail ERR_AUTH s
             else (EV_SEND_CONFIG, s\<lparr>cs_state := ST_CONFIGURING\<rparr>))
          else fail ERR_BAD_STATE s
      | ST_CONFIGURING \<Rightarrow>
          if ftype f = MSG_CONFIG_RESULT then
            (if flen f = 1 then fail ERR_CONFIG s
             else case decodeConfigEcho f of
               None \<Rightarrow> fail ERR_CONFIG s
             | Some echo \<Rightarrow>
                 if \<not> have_cfg s \<or> \<not> configEqual echo (cs_cfg s) then fail ERR_CONFIG s
                 else (EV_READY, s\<lparr>cs_state := ST_READY_RX\<rparr>))
          else fail ERR_BAD_STATE s
      | ST_READY_RX \<Rightarrow>
          if ftype f = MSG_RX_PACKET then on_rx_packet f s
          else if ftype f = MSG_TX_RESULT then (EV_NONE, s)
          else fail ERR_BAD_STATE s
      | ST_TX_PENDING \<Rightarrow>
          if ftype f = MSG_TX_RESULT then
            (if fseq f \<noteq> cs_tx_seq s then (EV_NONE, s)
             else (EV_TX_DONE, s\<lparr>last_tx_outcome := tx_code (fpayload f ! 0),
               cs_tx_in_flight := False, cs_state := ST_READY_RX\<rparr>))
          else if ftype f = MSG_RX_PACKET then on_rx_packet f s
          else fail ERR_BAD_STATE s
      | _ \<Rightarrow> fail ERR_BAD_STATE s)"

definition canSubmitTx :: "Session \<Rightarrow> bool" where
  "canSubmitTx s \<longleftrightarrow> cs_state s = ST_READY_RX \<and> \<not> cs_tx_in_flight s"

definition submitTx :: "Session \<Rightarrow> u16 option \<times> Session" where
  "submitTx s =
     (if \<not> canSubmitTx s then (None, s)
      else
        let out_seq = cs_next_seq s;
            s = s\<lparr>cs_next_seq := cs_next_seq s + 1\<rparr>;
            s = (if cs_next_seq s = 0 then s\<lparr>cs_next_seq := 1\<rparr> else s)
        in (Some out_seq, s\<lparr>cs_tx_seq := out_seq, cs_tx_in_flight := True,
              cs_state := ST_TX_PENDING\<rparr>))"

subsection \<open>The invariant\<close>

text \<open>
  A transmission is in flight exactly in its state, sequence numbers are never 0, and the
  session is operational only with a configuration.
\<close>

definition client_inv :: "Session \<Rightarrow> bool" where
  "client_inv s \<longleftrightarrow> (cs_tx_in_flight s \<longleftrightarrow> cs_state s = ST_TX_PENDING) \<and> cs_next_seq s \<noteq> 0 \<and>
     (cs_tx_in_flight s \<longrightarrow> cs_tx_seq s \<noteq> 0) \<and> (have_cfg s \<longrightarrow> radioConfigValid (cs_cfg s)) \<and>
     (cs_state s = ST_READY_RX \<or> cs_state s = ST_TX_PENDING \<longrightarrow> have_cfg s)"

lemmas client_op_defs = fail_def clearVolatile_def reset_def setDesiredConfig_def onConnecting_def
  onConnected_def onDisconnected_def submitTx_def canSubmitTx_def on_rx_packet_def

lemma client_inv_reset: "client_inv (reset s)"
  by (simp add: client_inv_def client_op_defs)

lemma client_inv_fail: "client_inv s \<Longrightarrow> client_inv (snd (fail r s))"
  by (auto simp: client_inv_def fail_def Let_def)

lemma client_inv_connect:
  assumes "client_inv s"
  shows "client_inv (snd (setDesiredConfig cfg s))" "client_inv (snd (onConnecting s))"
    "client_inv (snd (onConnected s))" "client_inv (snd (onDisconnected s))"
  using assms by (auto simp: client_inv_def client_op_defs Let_def)

lemma client_inv_timeout: "client_inv s \<Longrightarrow> client_inv (snd (onTimeout k s))"
  by (auto simp: onTimeout_def client_inv_fail split: TimeoutKind.split)

lemma client_inv_submit: "client_inv s \<Longrightarrow> client_inv (snd (submitTx s))"
  by (auto simp: client_inv_def submitTx_def canSubmitTx_def Let_def)

lemma client_inv_rx: "client_inv s \<Longrightarrow> client_inv (snd (on_rx_packet f s))"
proof -
  have "client_inv (s\<lparr>last_rx := rx\<rparr>) = client_inv s" for rx by (simp add: client_inv_def)
  then show "client_inv s \<Longrightarrow> client_inv (snd (on_rx_packet f s))"
    by (simp add: on_rx_packet_def client_inv_fail split: option.split)
qed

lemma client_inv_frame:
  assumes "client_inv s"
  shows "client_inv (snd (onFrame f s))"
proof -
  have st: "client_inv (s\<lparr>cs_state := st\<rparr>)"
    if "cs_state s \<noteq> ST_TX_PENDING" "st \<noteq> ST_TX_PENDING" "st = ST_READY_RX \<longrightarrow> have_cfg s" for st
    using assms that by (auto simp: client_inv_def)
  have nn: "client_inv (s\<lparr>cs_nonce := n\<rparr>)" for n using assms by (auto simp: client_inv_def)
  have dn: "client_inv (s\<lparr>last_tx_outcome := r, cs_tx_in_flight := False, cs_state := ST_READY_RX\<rparr>)"
    if "cs_state s = ST_TX_PENDING" for r
    using assms that by (auto simp: client_inv_def)
  show ?thesis
    using assms st nn dn client_inv_fail [OF assms] client_inv_rx [OF assms, of f]
    by (auto simp: onFrame_def Let_def split: CState.split option.split)
qed

subsection \<open>Outcomes of a transmission\<close>

text \<open>A failure while a transmission is in flight leaves its outcome unknown.\<close>

lemma fail_unknown:
  "cs_tx_in_flight s \<Longrightarrow> last_tx_outcome (snd (fail r s)) = TXO_UNKNOWN \<and> \<not> cs_tx_in_flight (snd (fail r s))"
  by (simp add: fail_def Let_def)

lemma fail_outcome: "\<not> cs_tx_in_flight s \<Longrightarrow> last_tx_outcome (snd (fail r s)) = last_tx_outcome s"
  by (simp add: fail_def Let_def)

text \<open>A frame changes the outcome only to that of the matching result, or to unknown.\<close>

lemma onFrame_outcome:
  assumes "onFrame f s = (ev, s')" and "last_tx_outcome s' \<noteq> last_tx_outcome s"
  shows "cs_tx_in_flight s \<and> ev = EV_NEED_DISCONNECT \<and> last_tx_outcome s' = TXO_UNKNOWN \<or>
     cs_state s = ST_TX_PENDING \<and> ev = EV_TX_DONE \<and> validate f = ERR_NONE \<and>
       ftype f = MSG_TX_RESULT \<and> fseq f = cs_tx_seq s \<and>
       last_tx_outcome s' = tx_code (fpayload f ! 0)"
proof -
  have F: "cs_tx_in_flight s \<and> ev = EV_NEED_DISCONNECT \<and> last_tx_outcome s' = TXO_UNKNOWN"
    if "fail r s = (ev, s')" for r
    using that assms(2) by (auto simp: fail_def Let_def split: if_splits)
  show ?thesis
    using assms F
    by (auto simp: onFrame_def on_rx_packet_def Let_def split: if_splits CState.splits option.splits)
qed

end
