(* ===== verification/Radio_Backend.thy ===== *)
theory Radio_Backend
  imports Xr_Protocol
begin

text \<open>
  The backend abstraction, \<^verbatim>\<open>src/src/backend/radio_backend.h\<close>: the outcome of a transmission,
  a received packet, the result of a configuration, the events a backend delivers to its
  sink, and the virtual interface \<^verbatim>\<open>RadioBackend\<close>.

  The interface is a record of operations over the backend's own state, as the C++ virtual
  table is.  \<^verbatim>\<open>poll()\<close> calls the sink; no sink callback calls back into the backend, so the
  calls of one \<open>poll\<close> are returned as the list of events in the order of the calls.  The
  clock reading an operation makes is an argument.
\<close>

datatype TxOutcome = Success | ChannelBusy | Timeout | RadioError

record RxEvent =
  rssi_cdbm :: i16
  snr_cdb :: i16
  rx_event_len :: u16
  rx_event_data :: "byte list"

record ConfigureResult =
  applied :: bool
  effective :: RadioConfig

text \<open>\<^verbatim>\<open>RadioConfig{}\<close>: all fields zero.\<close>

definition zero_config :: RadioConfig where
  "zero_config = \<lparr>freq_hz = 0, bw_hz = 0, sf = 0, cr_denom = 0, sync_word = 0, preamble = 0,
     tx_power_dbm = 0, crc = 0, ldro = 0\<rparr>"

datatype SinkEvent =
    OnRx RxEvent
  | OnTxComplete TxOutcome
  | OnBackendFailure
  | OnConfigureComplete u32 ConfigureResult

record 'b RadioBackend =
  set_sink :: "bool \<Rightarrow> 'b \<Rightarrow> 'b"
  begin_configure :: "u64 \<Rightarrow> RadioConfig \<Rightarrow> 'b \<Rightarrow> u32 \<times> 'b"
  start :: "'b \<Rightarrow> 'b"
  stop :: "'b \<Rightarrow> 'b"
  ready :: "'b \<Rightarrow> bool"
  backend_next_deadline_ms :: "'b \<Rightarrow> u64"
  submit_tx :: "byte list \<Rightarrow> 'b \<Rightarrow> bool \<times> 'b"
  abandon_pending_tx :: "u64 \<Rightarrow> 'b \<Rightarrow> 'b"
  poll :: "u64 \<Rightarrow> 'b \<Rightarrow> SinkEvent list \<times> 'b"

text \<open>The event carries at least the bytes its length announces.\<close>

definition rx_wf :: "RxEvent \<Rightarrow> bool" where
  "rx_wf rx \<longleftrightarrow> unat (rx_event_len rx) \<le> length (rx_event_data rx)"

subsection \<open>The contract\<close>

text \<open>
  What the session, the connection and the server rely on.  \<open>tx_open b\<close>: a transmission was
  accepted and its completion can still be delivered.  \<open>cfg_open b\<close>: the token of a
  configuration whose completion can still be delivered.  \<open>attached b\<close>: a sink is set.
\<close>

locale radio_backend =
  fixes B :: "'b RadioBackend"
    and binv :: "'b \<Rightarrow> bool"
    and attached :: "'b \<Rightarrow> bool"
    and tx_open :: "'b \<Rightarrow> bool"
    and cfg_open :: "'b \<Rightarrow> u32 option"
  assumes binv_set_sink: "binv b \<Longrightarrow> binv (set_sink B x b)"
    and binv_begin_configure: "binv b \<Longrightarrow> binv (snd (begin_configure B now c b))"
    and binv_start: "binv b \<Longrightarrow> binv (start B b)"
    and binv_stop: "binv b \<Longrightarrow> binv (stop B b)"
    and binv_submit_tx: "binv b \<Longrightarrow> binv (snd (submit_tx B d b))"
    and binv_abandon: "binv b \<Longrightarrow> binv (abandon_pending_tx B now b)"
    and binv_poll: "binv b \<Longrightarrow> binv (snd (poll B now b))"
    and attached_set_sink: "attached (set_sink B x b) = x"
    and attached_begin_configure: "attached (snd (begin_configure B now c b)) = attached b"
    and attached_start: "attached (start B b) = attached b"
    and attached_stop: "attached (stop B b) = attached b"
    and attached_submit_tx: "attached (snd (submit_tx B d b)) = attached b"
    and attached_abandon: "attached (abandon_pending_tx B now b) = attached b"
    and attached_poll: "binv b \<Longrightarrow> attached (snd (poll B now b)) = attached b"
    and detached_silent: "binv b \<Longrightarrow> \<not> attached b \<Longrightarrow> fst (poll B now b) = []"
    and rx_events: "binv b \<Longrightarrow> OnRx rx \<in> set (fst (poll B now b)) \<Longrightarrow> rx_wf rx"
    and submit_accepts: "binv b \<Longrightarrow> fst (submit_tx B d b) \<Longrightarrow>
          ready B b \<and> \<not> tx_open b \<and> tx_open (snd (submit_tx B d b))"
    and submit_refuses: "binv b \<Longrightarrow> \<not> fst (submit_tx B d b) \<Longrightarrow>
          tx_open (snd (submit_tx B d b)) \<Longrightarrow> tx_open b"
    and complete_open: "binv b \<Longrightarrow> OnTxComplete r \<in> set (fst (poll B now b)) \<Longrightarrow>
          tx_open b \<and> \<not> tx_open (snd (poll B now b))"
    and complete_once: "binv b \<Longrightarrow>
          length (filter (\<lambda>e. \<exists>r. e = OnTxComplete r) (fst (poll B now b))) \<le> 1"
    and failure_closes: "binv b \<Longrightarrow> OnBackendFailure \<in> set (fst (poll B now b)) \<Longrightarrow>
          \<not> tx_open (snd (poll B now b))"
    and poll_opens_none: "binv b \<Longrightarrow> tx_open (snd (poll B now b)) \<Longrightarrow> tx_open b"
    and complete_not_lost: "binv b \<Longrightarrow> attached b \<Longrightarrow> tx_open b \<Longrightarrow>
          \<not> tx_open (snd (poll B now b)) \<Longrightarrow>
          (\<exists>r. OnTxComplete r \<in> set (fst (poll B now b))) \<or>
          OnBackendFailure \<in> set (fst (poll B now b))"
    and abandon_closes: "binv b \<Longrightarrow> \<not> tx_open (abandon_pending_tx B now b)"
    and tx_open_set_sink: "tx_open (set_sink B x b) = tx_open b"
    and tx_open_start: "tx_open (start B b) = tx_open b"
    and tx_open_stop: "tx_open (stop B b) \<Longrightarrow> tx_open b"
    and tx_open_begin_configure: "binv b \<Longrightarrow>
          tx_open (snd (begin_configure B now c b)) = tx_open b"
    and configure_token: "binv b \<Longrightarrow> begin_configure B now c b = (t, b') \<Longrightarrow> t \<noteq> 0 \<Longrightarrow>
          cfg_open b' = Some t"
    and configure_complete: "binv b \<Longrightarrow>
          OnConfigureComplete t res \<in> set (fst (poll B now b)) \<Longrightarrow>
          cfg_open b = Some t \<and> cfg_open (snd (poll B now b)) = None"

end
