(* ===== verification/Hmac_Auth.thy ===== *)
theory Hmac_Auth
  imports Xr_Protocol
begin

text \<open>
  Connection authentication, \<^verbatim>\<open>src/src/auth/hmac_auth.{h,cpp}\<close>.  The OpenSSL functions
  are parameters: \<open>HMAC key msg\<close> is the digest, \<open>None\<close> for a null return; \<open>RAND_bytes\<close> is the
  result of the one call made per handshake, \<open>None\<close> for a failure.  A password file is the
  bytes \<^verbatim>\<open>fread\<close> delivers and whether the read ended in an error.
\<close>

record openssl =
  HMAC :: "byte list \<Rightarrow> byte list \<Rightarrow> byte list option"
  RAND_bytes :: "byte list option"

record AuthConfig =
  password :: "byte list"

definition open_auth :: AuthConfig where
  "open_auth = \<lparr>password = []\<rparr>"

definition password_configured :: "AuthConfig \<Rightarrow> bool" where
  "password_configured c \<longleftrightarrow> password c \<noteq> []"

definition from_password_bytes :: "byte list option \<Rightarrow> AuthConfig" where
  "from_password_bytes key =
     (case key of None \<Rightarrow> open_auth | Some k \<Rightarrow> if length k \<noteq> 0 then \<lparr>password = k\<rparr> else open_auth)"

datatype password_error =
    CannotOpen | TooLarge | ReadError | EmptyPassword

record password_file =
  file_bytes :: "byte list"
  file_error :: bool

definition kMaxPasswordFileBytes :: nat where
  [simp]: "kMaxPasswordFileBytes = 4096"

text \<open>The read loop: chunks of at most 512 bytes until \<^verbatim>\<open>fread\<close> returns 0.\<close>

function read_password :: "byte list \<Rightarrow> byte list \<Rightarrow> byte list option" where
  "read_password data input =
     (let chunk = take 512 input in
      if chunk = [] then Some data
      else if length data + length chunk > kMaxPasswordFileBytes then None
      else read_password (data @ chunk) (drop 512 input))"
  by pat_completeness auto
termination
  by (relation "measure (\<lambda>(data, input). length input)") auto

declare read_password.simps [simp del]

definition strip_newline :: "byte list \<Rightarrow> byte list" where
  "strip_newline data =
     (if data \<noteq> [] \<and> last data = 0x0A
      then let data = butlast data in
        if data \<noteq> [] \<and> last data = 0x0D then butlast data else data
      else data)"

definition from_password_file :: "password_file option \<Rightarrow> password_error + AuthConfig" where
  "from_password_file file =
     (case file of None \<Rightarrow> Inl CannotOpen
      | Some f \<Rightarrow>
          (case read_password [] (file_bytes f) of
             None \<Rightarrow> Inl TooLarge
           | Some data \<Rightarrow>
               if file_error f then Inl ReadError
               else let data = strip_newline data in
                 if data = [] then Inl EmptyPassword else Inr \<lparr>password = data\<rparr>))"

definition random_nonce :: "openssl \<Rightarrow> byte list option" where
  "random_nonce ssl = RAND_bytes ssl"

definition hmac_sha256 :: "openssl \<Rightarrow> byte list \<Rightarrow> byte list \<Rightarrow> byte list option" where
  "hmac_sha256 ssl key msg =
     (case HMAC ssl key msg of
        None \<Rightarrow> None
      | Some r \<Rightarrow> if length r = unat kAuthResponseSize then Some r else None)"

definition verify_auth_response :: "openssl \<Rightarrow> AuthConfig \<Rightarrow> byte list \<Rightarrow> byte list option \<Rightarrow> nat \<Rightarrow> bool" where
  "verify_auth_response ssl cfg nonce response response_len =
     (if \<not> password_configured cfg then False
      else if response = None \<or> response_len \<noteq> unat kAuthResponseSize then False
      else case hmac_sha256 ssl (password cfg) nonce of
        None \<Rightarrow> False
      | Some expected \<Rightarrow> take (unat kAuthResponseSize) (the response) = expected)"

subsection \<open>Properties\<close>

lemma read_password_eq:
  "read_password data input =
     (if input = [] \<or> length data + length input \<le> 4096 then Some (data @ input) else None)"
proof (induction data input rule: read_password.induct)
  case (1 data input)
  show ?case
  proof (cases "input = []")
    case True
    then show ?thesis by (simp add: read_password.simps)
  next
    case False
    then show ?thesis
      using "1.IH" by (subst read_password.simps) (auto simp: Let_def min_def)
  qed
qed

end
