(* ===== verification/Bounded_Buffer.thy ===== *)
theory Bounded_Buffer
  imports Bridge_Prelude
begin

text \<open>
  The per-client output queue, \<^verbatim>\<open>src/src/util/bounded_buffer.h\<close>: a FIFO of bytes kept in
  a \<^verbatim>\<open>std::vector\<close> with a read position, refusing an append that would exceed its capacity.
  The vector is its elements and its allocated capacity; \<open>insert\<close> at the end reallocates
  only when the elements do not fit (growth as in libstdc++: to the size plus the larger of
  the size and the number of inserted elements).

  The interface the session and the connection rely on is the locale \<open>byte_queue\<close>: the
  queue is a list of bytes, appended to all or nothing and consumed from the front.
\<close>

subsection \<open>The interface\<close>

locale byte_queue =
  fixes invar :: "'q \<Rightarrow> bool"
    and contents :: "'q \<Rightarrow> byte list"
    and capacity :: "'q \<Rightarrow> nat"
    and append :: "'q \<Rightarrow> byte list \<Rightarrow> bool \<times> 'q"
    and consume :: "'q \<Rightarrow> nat \<Rightarrow> 'q"
    and clear :: "'q \<Rightarrow> 'q"
  assumes append_fits:
      "invar q \<Longrightarrow> length (contents q) + length xs \<le> capacity q \<Longrightarrow>
         fst (append q xs) \<and> contents (snd (append q xs)) = contents q @ xs"
    and append_overflow:
      "invar q \<Longrightarrow> capacity q < length (contents q) + length xs \<Longrightarrow> append q xs = (False, q)"
    and invar_append: "invar q \<Longrightarrow> invar (snd (append q xs))"
    and capacity_append: "capacity (snd (append q xs)) = capacity q"
    and contents_consume: "invar q \<Longrightarrow> contents (consume q n) = drop n (contents q)"
    and invar_consume: "invar q \<Longrightarrow> invar (consume q n)"
    and capacity_consume: "capacity (consume q n) = capacity q"
    and contents_clear: "contents (clear q) = []"
    and invar_clear: "invar q \<Longrightarrow> invar (clear q)"
    and capacity_clear: "capacity (clear q) = capacity q"
    and within_capacity: "invar q \<Longrightarrow> length (contents q) \<le> capacity q"
begin

lemma append_result:
  assumes "invar q"
  shows "fst (append q xs) \<longleftrightarrow> length (contents q) + length xs \<le> capacity q"
  using assms append_fits append_overflow by (metis fst_conv not_le)

lemma contents_append:
  assumes "invar q"
  shows "contents (snd (append q xs)) =
     (if fst (append q xs) then contents q @ xs else contents q)"
  using assms append_result append_fits append_overflow by (metis not_le snd_conv)

text \<open>Appending block after block: accepted blocks come out whole and in order.\<close>

lemma appends_prefix:
  assumes "invar q"
  shows "\<exists>bs. contents (fold (\<lambda>x q. snd (append q x)) xss q) = contents q @ concat bs \<and>
     set bs \<subseteq> set xss"
  using assms
proof (induction xss arbitrary: q)
  case Nil
  then show ?case by (auto intro: exI [of _ "[]"])
next
  case (Cons x xss)
  let ?q = "snd (append q x)"
  from Cons.prems have "invar ?q" by (rule invar_append)
  then obtain bs where bs: "contents (fold (\<lambda>x q. snd (append q x)) xss ?q) = contents ?q @ concat bs"
    "set bs \<subseteq> set xss"
    using Cons.IH by blast
  show ?case
  proof (cases "fst (append q x)")
    case True
    then have "contents ?q = contents q @ x" by (simp add: contents_append [OF Cons.prems])
    with bs show ?thesis by (intro exI [of _ "x # bs"]) auto
  next
    case False
    then have "contents ?q = contents q" by (simp add: contents_append [OF Cons.prems])
    with bs show ?thesis by (intro exI [of _ bs]) auto
  qed
qed

text \<open>Partial writes: consuming piece by piece drops exactly the sum from the front.\<close>

lemma consumes_drop:
  assumes "invar q"
  shows "contents (fold (\<lambda>n q. consume q n) ns q) = drop (sum_list ns) (contents q)"
  using assms
proof (induction ns arbitrary: q)
  case Nil
  then show ?case by simp
next
  case (Cons n ns)
  then show ?case
    by (simp add: contents_consume invar_consume add.commute)
qed

end

subsection \<open>The implementation\<close>

record bounded_buffer =
  bb_cap :: nat
  bb_vec :: "byte list"
  bb_vec_capacity :: nat
  bb_head :: nat

definition bb_init :: "nat \<Rightarrow> bounded_buffer" where
  "bb_init cap = \<lparr>bb_cap = cap, bb_vec = [], bb_vec_capacity = 0, bb_head = 0\<rparr>"

definition bb_size :: "bounded_buffer \<Rightarrow> nat" where
  "bb_size b = length (bb_vec b) - bb_head b"

definition bb_data :: "bounded_buffer \<Rightarrow> byte list" where
  "bb_data b = drop (bb_head b) (bb_vec b)"

definition bb_clear :: "bounded_buffer \<Rightarrow> bounded_buffer" where
  "bb_clear b = b\<lparr>bb_vec := [], bb_head := 0\<rparr>"

definition vec_insert_end :: "byte list \<Rightarrow> bounded_buffer \<Rightarrow> bounded_buffer" where
  "vec_insert_end xs b =
     (let n = length (bb_vec b) in
      b\<lparr>bb_vec := bb_vec b @ xs,
        bb_vec_capacity :=
          (if n + length xs \<le> bb_vec_capacity b then bb_vec_capacity b
           else n + max n (length xs))\<rparr>)"

definition compact_if_needed :: "nat \<Rightarrow> bounded_buffer \<Rightarrow> bounded_buffer" where
  "compact_if_needed incoming b =
     (if bb_head b = 0 then b
      else let live = bb_size b in
        if bb_head b \<ge> live \<or> bb_head b + incoming + live > bb_vec_capacity b
        then b\<lparr>bb_vec := drop (bb_head b) (bb_vec b),
               bb_vec_capacity := live + incoming, bb_head := 0\<rparr>
        else b)"

definition bb_append :: "bounded_buffer \<Rightarrow> byte list \<Rightarrow> bool \<times> bounded_buffer" where
  "bb_append b xs =
     (if length xs = 0 then (True, b)
      else if bb_size b + length xs > bb_cap b then (False, b)
      else (True, vec_insert_end xs (compact_if_needed (length xs) b)))"

definition bb_consume :: "bounded_buffer \<Rightarrow> nat \<Rightarrow> bounded_buffer" where
  "bb_consume b n =
     (if n \<ge> bb_size b then bb_clear b else b\<lparr>bb_head := bb_head b + n\<rparr>)"

text \<open>
  The invariant: the read position is inside the vector, the unread bytes are within the
  queue's capacity, and the vector's allocation is at most twice that capacity.
\<close>

definition bb_invar :: "bounded_buffer \<Rightarrow> bool" where
  "bb_invar b \<longleftrightarrow> bb_head b \<le> length (bb_vec b) \<and> bb_size b \<le> bb_cap b \<and>
     length (bb_vec b) \<le> bb_vec_capacity b \<and> bb_vec_capacity b \<le> 2 * bb_cap b"

lemmas bb_defs = bb_init_def bb_size_def bb_data_def bb_clear_def vec_insert_end_def
  compact_if_needed_def bb_append_def bb_consume_def bb_invar_def

lemma length_bb_data: "length (bb_data b) = bb_size b"
  by (simp add: bb_defs)

lemma bb_invar_init: "bb_invar (bb_init cap)"
  by (simp add: bb_defs)

lemma compact_if_needed_data [simp]: "bb_data (compact_if_needed n b) = bb_data b"
  by (simp add: bb_defs Let_def)

lemma compact_if_needed_cap [simp]: "bb_cap (compact_if_needed n b) = bb_cap b"
  by (simp add: bb_defs Let_def)

lemma compact_if_needed_head:
  "bb_invar b \<Longrightarrow> bb_head (compact_if_needed n b) \<le> length (bb_vec (compact_if_needed n b))"
  by (simp add: bb_defs Let_def)

lemma bb_invar_append_fits:
  assumes inv: "bb_invar b" and fits: "bb_size b + length xs \<le> bb_cap b"
  shows "bb_invar (vec_insert_end xs (compact_if_needed (length xs) b))"
proof (cases "bb_head b = 0")
  case True
  then show ?thesis
    using inv fits by (auto simp: bb_defs Let_def)
next
  case False
  then show ?thesis
    using inv fits by (auto simp: bb_defs Let_def)
qed

interpretation bb: byte_queue bb_invar bb_data bb_cap bb_append bb_consume bb_clear
proof unfold_locales
  fix q :: bounded_buffer and xs :: "byte list" assume "bb_invar q" "length (bb_data q) + length xs \<le> bb_cap q"
  moreover from this have "bb_head (compact_if_needed (length xs) q) \<le>
      length (bb_vec (compact_if_needed (length xs) q))"
    by (simp add: compact_if_needed_head)
  then have "bb_data (vec_insert_end xs (compact_if_needed (length xs) q)) = bb_data q @ xs"
    by (subst compact_if_needed_data [of "length xs", symmetric])
       (simp add: vec_insert_end_def bb_data_def Let_def)
  ultimately show "fst (bb_append q xs) \<and> bb_data (snd (bb_append q xs)) = bb_data q @ xs"
    by (auto simp: bb_append_def length_bb_data)
next
  fix q :: bounded_buffer and xs :: "byte list" assume "bb_invar q" "bb_cap q < length (bb_data q) + length xs"
  then show "bb_append q xs = (False, q)"
    by (auto simp: bb_append_def length_bb_data bb_invar_def)
next
  fix q :: bounded_buffer and xs :: "byte list" assume "bb_invar q"
  then show "bb_invar (snd (bb_append q xs))"
    by (simp add: bb_append_def bb_invar_append_fits)
next
  fix q n assume "bb_invar q"
  then show "bb_data (bb_consume q n) = drop n (bb_data q)"
    by (simp add: bb_defs add.commute)
next
  fix q n assume "bb_invar q"
  then show "bb_invar (bb_consume q n)"
    by (auto simp: bb_defs)
qed (auto simp: bb_defs Let_def)

end
