(* ===== verification/Xr_Session.thy ===== *)
theory Xr_Session
  imports Radio_Backend Hmac_Auth Bounded_Buffer
begin

text \<open>
  The server-side session of one firmware client, \<^verbatim>\<open>src/src/xr/xr_session.{h,cpp}\<close>.  The
  session's fields are a record; the backend it drives is the second component of the state
  the handlers pass on.  Each handler takes the vtable of the backend, the crypto functions
  and the clock reading it makes.  Log output is not modelled; the counter of late PONG
  warnings is.
\<close>

subsection \<open>Local helpers\<close>

definition pack_config :: "RadioConfig \<Rightarrow> byte list" where
  "pack_config c = put32 (freq_hz c) @ put32 (bw_hz c) @ [sf c, cr_denom c] @
     put16 (sync_word c) @ put16 (preamble c) @ [tx_power_dbm c, crc c, ldro c]"

definition is_client_message :: "byte \<Rightarrow> bool" where
  "is_client_message t \<longleftrightarrow> t = MSG_HELLO \<or> t = MSG_AUTH_RESPONSE \<or> t = MSG_CONFIGURE \<or>
     t = MSG_TX_REQUEST \<or> t = MSG_PONG \<or> t = MSG_ERROR"

fun tx_outcome_to_wire :: "TxOutcome \<Rightarrow> byte" where
  "tx_outcome_to_wire Success = TXR_SUCCESS"
| "tx_outcome_to_wire ChannelBusy = TXR_CHANNEL_BUSY"
| "tx_outcome_to_wire Timeout = TXR_TIMEOUT"
| "tx_outcome_to_wire RadioError = TXR_RADIO_ERROR"

subsection \<open>State\<close>

datatype Phase = WaitHello | WaitAuth | WaitConfigure | Configuring | Ready | Closed

datatype CloseReason =
    NoReason | OutputOverflow | MalformedFrame | ParserError | BadState | RemoteError
  | AuthFailed | AuthError | ConfigFailed | BackendFailure | HandshakeTimeout | AuthTimeout
  | ConfigTimeout | PongTimeout | TxTimeoutUncertain | InternalError

fun close_reason_name :: "CloseReason \<Rightarrow> string" where
  "close_reason_name NoReason = ''none''"
| "close_reason_name OutputOverflow = ''output-overflow''"
| "close_reason_name MalformedFrame = ''malformed-frame''"
| "close_reason_name ParserError = ''parser-error''"
| "close_reason_name BadState = ''bad-state''"
| "close_reason_name RemoteError = ''remote-error''"
| "close_reason_name AuthFailed = ''auth-failed''"
| "close_reason_name AuthError = ''auth-error''"
| "close_reason_name ConfigFailed = ''config-failed''"
| "close_reason_name BackendFailure = ''backend-failure''"
| "close_reason_name HandshakeTimeout = ''handshake-timeout''"
| "close_reason_name AuthTimeout = ''auth-timeout''"
| "close_reason_name ConfigTimeout = ''config-timeout''"
| "close_reason_name PongTimeout = ''pong-timeout''"
| "close_reason_name TxTimeoutUncertain = ''tx-timeout-uncertain''"
| "close_reason_name InternalError = ''internal-error''"

record Timeouts =
  handshake_ms :: u64
  auth_ms :: u64
  config_ms :: u64
  tx_ms :: u64
  ping_interval_ms :: u64
  pong_timeout_ms :: u64

definition default_timeouts :: Timeouts where
  "default_timeouts = \<lparr>handshake_ms = 5000, auth_ms = 5000, config_ms = 5000, tx_ms = 10000,
     ping_interval_ms = 15000, pong_timeout_ms = 10000\<rparr>"

record XrSession =
  auth :: AuthConfig
  to :: Timeouts
  parser :: Parser
  outbox :: bounded_buffer
  phase :: Phase
  close_reason :: CloseReason
  deadline_active :: bool
  deadline_at :: u64
  deadline_reason :: CloseReason
  nonce :: "byte list"
  applied_cfg :: RadioConfig
  requested_cfg :: RadioConfig
  config_op_token :: u32
  tx_in_flight :: bool
  tx_seq :: u16
  tx_deadline_at :: u64
  awaiting_pong :: bool
  next_ping_at :: u64
  pong_deadline_at :: u64
  ping_sent_at :: u64
  last_pong_rtt_ms :: u64
  late_pong_warns :: u32

definition new_session :: "AuthConfig \<Rightarrow> Timeouts \<Rightarrow> nat \<Rightarrow> XrSession" where
  "new_session a t max_outbox = \<lparr>auth = a, to = t, parser = parser_init,
     outbox = bb_init max_outbox, phase = Closed, close_reason = NoReason,
     deadline_active = False, deadline_at = 0, deadline_reason = NoReason,
     nonce = replicate 16 0, applied_cfg = zero_config, requested_cfg = zero_config,
     config_op_token = 0, tx_in_flight = False, tx_seq = 0, tx_deadline_at = 0,
     awaiting_pong = False, next_ping_at = 0, pong_deadline_at = 0, ping_sent_at = 0,
     last_pong_rtt_ms = 0, late_pong_warns = 0\<rparr>"

subsection \<open>Closing, arming, emitting\<close>

definition arm :: "u64 \<Rightarrow> u64 \<Rightarrow> CloseReason \<Rightarrow> XrSession \<Rightarrow> XrSession" where
  "arm now timeout_ms on_expire s =
     s\<lparr>deadline_active := True, deadline_at := now + timeout_ms, deadline_reason := on_expire\<rparr>"

definition close :: "CloseReason \<Rightarrow> XrSession \<Rightarrow> XrSession" where
  "close reason s =
     (if phase s = Closed then s
      else s\<lparr>close_reason := reason, phase := Closed, deadline_active := False,
             tx_in_flight := False\<rparr>)"

definition emit :: "byte \<Rightarrow> u16 \<Rightarrow> byte list option \<Rightarrow> u16 \<Rightarrow> XrSession \<Rightarrow> bool \<times> XrSession" where
  "emit ty seq payload len s =
     (case encode (Some kMaxFrame) ty seq payload len of
        None \<Rightarrow> (False, close InternalError s)
      | Some bs \<Rightarrow>
          let (ok, ob) = bb_append (outbox s) bs; s = s\<lparr>outbox := ob\<rparr> in
          if \<not> ok then (False, close OutputOverflow s) else (True, s))"

definition open_session :: "'b RadioBackend \<Rightarrow> u64 \<Rightarrow> XrSession \<times> 'b \<Rightarrow> XrSession \<times> 'b" where
  "open_session B now sb =
     (let (s, b) = sb;
          s = s\<lparr>parser := parserReset (parser s), outbox := bb_clear (outbox s),
                phase := WaitHello, close_reason := NoReason, tx_in_flight := False,
                awaiting_pong := False\<rparr>;
          b = start B b
      in (arm now (handshake_ms (to s)) HandshakeTimeout s, b))"

definition enter_ready :: "u64 \<Rightarrow> XrSession \<Rightarrow> XrSession" where
  "enter_ready now s =
     s\<lparr>phase := Ready, deadline_active := False, awaiting_pong := False,
       next_ping_at := now + ping_interval_ms (to s)\<rparr>"

subsection \<open>Inbound frames\<close>

definition handle_ready_frame ::
  "'b RadioBackend \<Rightarrow> u64 \<Rightarrow> Frame \<Rightarrow> XrSession \<times> 'b \<Rightarrow> XrSession \<times> 'b" where
  "handle_ready_frame B now f sb =
     (let (s, b) = sb in
      if ftype f = MSG_PONG then
        if \<not> awaiting_pong s then (close BadState s, b)
        else
          let s = s\<lparr>awaiting_pong := False, last_pong_rtt_ms := now - ping_sent_at s\<rparr>;
              s = (if last_pong_rtt_ms s * 2 \<ge> pong_timeout_ms (to s)
                   then s\<lparr>late_pong_warns := late_pong_warns s + 1\<rparr> else s)
          in (s\<lparr>next_ping_at := now + ping_interval_ms (to s)\<rparr>, b)
      else if ftype f = MSG_TX_REQUEST then
        if tx_in_flight s then (close BadState s, b)
        else
          let s = s\<lparr>tx_seq := fseq f\<rparr>;
              (ok, b) = submit_tx B (take (unat (flen f)) (fpayload f)) b
          in if \<not> ok then (close BackendFailure s, b)
             else (s\<lparr>tx_in_flight := True, tx_deadline_at := now + tx_ms (to s)\<rparr>, b)
      else if ftype f = MSG_HELLO \<or> ftype f = MSG_CONFIGURE \<or> ftype f = MSG_AUTH_RESPONSE then
        (close BadState s, b)
      else (close BadState s, b))"

definition handle_hello ::
  "openssl \<Rightarrow> u64 \<Rightarrow> Frame \<Rightarrow> XrSession \<Rightarrow> XrSession" where
  "handle_hello ssl now f s =
     (if ftype f \<noteq> MSG_HELLO then close BadState s
      else
        let (ok, s) = emit MSG_HELLO_ACK 0 (Some [kVersion]) 1 s in
        if \<not> ok then s
        else if password_configured (auth s) then
          (case random_nonce ssl of
             None \<Rightarrow> close AuthError s
           | Some r \<Rightarrow>
               let s = s\<lparr>nonce := r\<rparr>;
                   (ok, s) = emit MSG_AUTH_CHALLENGE 0 (Some (nonce s)) kAuthNonceSize s
               in if \<not> ok then s
                  else arm now (auth_ms (to s)) AuthTimeout (s\<lparr>phase := WaitAuth\<rparr>))
        else
          let (ok, s) = emit MSG_AUTH_RESULT 0 (Some [AUTH_OK]) 1 s
          in if \<not> ok then s
             else arm now (config_ms (to s)) ConfigTimeout (s\<lparr>phase := WaitConfigure\<rparr>))"

definition handle_auth ::
  "openssl \<Rightarrow> u64 \<Rightarrow> Frame \<Rightarrow> XrSession \<Rightarrow> XrSession" where
  "handle_auth ssl now f s =
     (if ftype f \<noteq> MSG_AUTH_RESPONSE then close BadState s
      else if verify_auth_response ssl (auth s) (nonce s) (Some (fpayload f)) (unat (flen f)) then
        let (ok, s) = emit MSG_AUTH_RESULT 0 (Some [AUTH_OK]) 1 s
        in if \<not> ok then s
           else arm now (config_ms (to s)) ConfigTimeout (s\<lparr>phase := WaitConfigure\<rparr>)
      else close AuthFailed (snd (emit MSG_AUTH_RESULT 0 (Some [AUTH_FAIL]) 1 s)))"

definition handle_configure ::
  "'b RadioBackend \<Rightarrow> u64 \<Rightarrow> Frame \<Rightarrow> XrSession \<times> 'b \<Rightarrow> XrSession \<times> 'b" where
  "handle_configure B now f sb =
     (let (s, b) = sb in
      if ftype f \<noteq> MSG_CONFIGURE then (close BadState s, b)
      else case (case decodeConfig f of None \<Rightarrow> None
                 | Some c \<Rightarrow> if \<not> radioConfigValid c then None else Some c) of
        None \<Rightarrow> (close ConfigFailed (snd (emit MSG_CONFIG_RESULT 0 (Some [CFG_INVALID]) 1 s)), b)
      | Some requested \<Rightarrow>
          let (token, b) = begin_configure B now requested b in
          if token = 0 then
            (close ConfigFailed (snd (emit MSG_CONFIG_RESULT 0 (Some [CFG_UNSUPPORTED]) 1 s)), b)
          else
            (arm now (config_ms (to s)) ConfigTimeout
               (s\<lparr>config_op_token := token, requested_cfg := requested, phase := Configuring\<rparr>), b))"

definition handle_frame ::
  "'b RadioBackend \<Rightarrow> openssl \<Rightarrow> u64 \<Rightarrow> Frame \<Rightarrow> XrSession \<times> 'b \<Rightarrow> XrSession \<times> 'b" where
  "handle_frame B ssl now f sb =
     (let (s, b) = sb in
      if validate f \<noteq> ERR_NONE then (close MalformedFrame s, b)
      else if \<not> is_client_message (ftype f) then (close BadState s, b)
      else if ftype f = MSG_ERROR then (close RemoteError s, b)
      else case phase s of
        WaitHello \<Rightarrow> (handle_hello ssl now f s, b)
      | WaitAuth \<Rightarrow> (handle_auth ssl now f s, b)
      | WaitConfigure \<Rightarrow> handle_configure B now f (s, b)
      | Configuring \<Rightarrow> (close BadState s, b)
      | Ready \<Rightarrow> handle_ready_frame B now f (s, b)
      | Closed \<Rightarrow> (s, b))"

subsection \<open>Backend events\<close>

definition on_configure_complete :: "u64 \<Rightarrow> u32 \<Rightarrow> ConfigureResult \<Rightarrow> XrSession \<Rightarrow> XrSession" where
  "on_configure_complete now op_token res s =
     (if phase s \<noteq> Configuring then s
      else if op_token \<noteq> config_op_token s then s
      else if \<not> applied res \<or> \<not> configEqual (effective res) (requested_cfg s) then
        close ConfigFailed (snd (emit MSG_CONFIG_RESULT 0 (Some [CFG_UNSUPPORTED]) 1 s))
      else
        let s = s\<lparr>applied_cfg := effective res\<rparr>;
            body = CFG_OK # pack_config (effective res);
            (ok, s) = emit MSG_CONFIG_RESULT 0 (Some body) (of_nat (length body)) s
        in if \<not> ok then s else enter_ready now s)"

definition on_rx :: "RxEvent \<Rightarrow> XrSession \<Rightarrow> XrSession" where
  "on_rx rx s =
     (if phase s \<noteq> Ready then s
      else if \<not> rxPayloadAcceptable (rx_event_len rx) then s
      else
        let payload = put16 (rssi_cdbm rx) @ put16 (snr_cdb rx) @ put16 (rx_event_len rx) @
              take (unat (rx_event_len rx)) (rx_event_data rx)
        in snd (emit MSG_RX_PACKET 0 (Some payload) (6 + rx_event_len rx) s))"

definition map_and_send_tx_result :: "TxOutcome \<Rightarrow> XrSession \<Rightarrow> XrSession" where
  "map_and_send_tx_result outcome s =
     (let s = s\<lparr>tx_in_flight := False\<rparr>
      in snd (emit MSG_TX_RESULT (tx_seq s) (Some [tx_outcome_to_wire outcome]) 1 s))"

definition on_tx_complete :: "TxOutcome \<Rightarrow> XrSession \<Rightarrow> XrSession" where
  "on_tx_complete outcome s =
     (if \<not> tx_in_flight s then s else map_and_send_tx_result outcome s)"

definition on_backend_failure :: "XrSession \<Rightarrow> XrSession" where
  "on_backend_failure s = close BackendFailure s"

fun on_event :: "u64 \<Rightarrow> SinkEvent \<Rightarrow> XrSession \<Rightarrow> XrSession" where
  "on_event now (OnRx rx) s = on_rx rx s"
| "on_event now (OnTxComplete r) s = on_tx_complete r s"
| "on_event now OnBackendFailure s = on_backend_failure s"
| "on_event now (OnConfigureComplete t r) s = on_configure_complete now t r s"

subsection \<open>Time\<close>

definition next_deadline_ms :: "XrSession \<Rightarrow> u64" where
  "next_deadline_ms s =
     (if phase s = Closed then UINT64_MAX
      else
        let take' = (\<lambda>t next. if t < next then t else next);
            next = UINT64_MAX;
            next = (if deadline_active s then take' (deadline_at s) next else next)
        in if phase s = Ready then
             let next = (if tx_in_flight s then take' (tx_deadline_at s) next else next)
             in if awaiting_pong s then take' (pong_deadline_at s) next
                else take' (next_ping_at s) next
           else next)"

definition tick :: "'b RadioBackend \<Rightarrow> u64 \<Rightarrow> XrSession \<times> 'b \<Rightarrow> XrSession \<times> 'b" where
  "tick B now sb =
     (let (s, b) = sb in
      if phase s = Closed then (s, b)
      else if deadline_active s \<and> now \<ge> deadline_at s then (close (deadline_reason s) s, b)
      else if phase s \<noteq> Ready then (s, b)
      else if tx_in_flight s \<and> now \<ge> tx_deadline_at s then
        (close TxTimeoutUncertain s, abandon_pending_tx B now b)
      else if awaiting_pong s then
        (if now \<ge> pong_deadline_at s then (close PongTimeout s, b) else (s, b))
      else if now \<ge> next_ping_at s then
        let (ok, s) = emit MSG_PING 0 None 0 s
        in if \<not> ok then (s, b)
           else (s\<lparr>awaiting_pong := True, ping_sent_at := now,
                   pong_deadline_at := now + pong_timeout_ms (to s)\<rparr>, b)
      else (s, b))"

subsection \<open>Feeding socket bytes\<close>

lemma parser_close [simp]: "parser (close r s) = parser s"
  by (simp add: close_def)

lemma parser_arm [simp]: "parser (arm now t r s) = parser s"
  by (simp add: arm_def)

lemma parser_emit [simp]: "parser (snd (emit ty seq pl len s)) = parser s"
  by (simp add: emit_def Let_def split: option.split prod.split)

lemma parser_emitD: "emit ty seq pl len s = (ok, s') \<Longrightarrow> parser s' = parser s"
  by (metis parser_emit snd_conv)

lemma parser_handle_hello [simp]: "parser (handle_hello ssl now f s) = parser s"
  by (simp add: handle_hello_def Let_def split_beta split: option.split)

lemma parser_handle_auth [simp]: "parser (handle_auth ssl now f s) = parser s"
  by (simp add: handle_auth_def Let_def split_beta)

lemma parser_handle_configure [simp]:
  "parser (fst (handle_configure B now f (s, b))) = parser s"
  by (simp add: handle_configure_def Let_def split_beta split: option.split)

lemma parser_handle_ready_frame [simp]:
  "parser (fst (handle_ready_frame B now f (s, b))) = parser s"
  by (simp add: handle_ready_frame_def Let_def split_beta)

lemma parser_handle_frame [simp]: "parser (fst (handle_frame B ssl now f sb)) = parser (fst sb)"
  by (cases sb) (simp add: handle_frame_def split: Phase.split)

function feed_loop ::
  "'b RadioBackend \<Rightarrow> openssl \<Rightarrow> u64 \<Rightarrow> byte list \<Rightarrow> XrSession \<times> 'b \<Rightarrow> XrSession \<times> 'b" where
  "feed_loop B ssl now data (s, b) =
     (case parserPop (parser s) of
        (POP_GOT_FRAME f, p) \<Rightarrow>
          let sb = handle_frame B ssl now f (s\<lparr>parser := p\<rparr>, b)
          in if phase (fst sb) = Closed then sb else feed_loop B ssl now data sb
      | (POP_ERROR err, p) \<Rightarrow> (close ParserError (s\<lparr>parser := p\<rparr>), b)
      | (POP_NEED_MORE, p) \<Rightarrow>
          if data = [] then (s\<lparr>parser := p\<rparr>, b)
          else
            let (st, took, p) = parserPush p (Some data) (length data);
                s = s\<lparr>parser := p\<rparr>
            in if st = PARSER_PUSH_INVALID_INPUT then (close ParserError s, b)
               else if st = PARSER_PUSH_NEED_DRAIN \<and> took = 0 then (close ParserError s, b)
               else feed_loop B ssl now (drop took data) (s, b))"
  by pat_completeness auto

lemma parserPop_have:
  "parserPop p = (POP_GOT_FRAME f, p') \<Longrightarrow> phave p' < phave p"
  by (auto simp: parserPop_def Let_def split: if_splits)

lemma parserPop_need: "parserPop p = (POP_NEED_MORE, p') \<Longrightarrow> p' = p"
  by (auto simp: parserPop_def Let_def split: if_splits)

lemma parserPush_have:
  "parserPush p (Some d) n = (st, took, p') \<Longrightarrow> phave p' = phave p + took \<and> took \<le> n \<and>
     st \<noteq> PARSER_PUSH_INVALID_INPUT \<and> (st \<noteq> PARSER_PUSH_NEED_DRAIN \<longrightarrow> took = n)"
  by (auto simp: parserPush_def Let_def split: if_splits)

termination feed_loop
proof (relation "measure (\<lambda>(B, ssl, now, data, s, b). 2 * length data + phave (parser s))",
    goal_cases)
  case 1
  show ?case by simp
next
  case (2 B ssl now data s b r p st y took p' s')
  then show ?case
    by (cases data) (auto dest!: parserPop_need [OF sym] parserPush_have [OF sym])
next
  case (3 B ssl now data s b r p f sb)
  then show ?case
    by (auto simp: split_beta dest!: parserPop_have [OF sym])
qed

declare feed_loop.simps [simp del]

definition feed ::
  "'b RadioBackend \<Rightarrow> openssl \<Rightarrow> u64 \<Rightarrow> byte list \<Rightarrow> XrSession \<times> 'b \<Rightarrow> XrSession \<times> 'b" where
  "feed B ssl now data sb =
     (if phase (fst sb) = Closed then sb else feed_loop B ssl now data sb)"

end
