(* ===== verification/Xr_Session_Lemmas.thy ===== *)
theory Xr_Session_Lemmas
  imports Xr_Session
begin

text \<open>
  The lemmas of the session: the invariant and its preservation by every handler, the frames
  each handler emits, and the read loop as an instance of the parser-loop contract.
\<close>

subsection \<open>Closing and emitting\<close>

lemma close_simps [simp]:
  "phase (close r s) = Closed" "outbox (close r s) = outbox s" "auth (close r s) = auth s"
  "to (close r s) = to s" "close r (s\<lparr>parser := p\<rparr>) = (close r s)\<lparr>parser := p\<rparr>"
  "close r' (close r s) = close r s"
  by (simp_all add: close_def)

lemma emit_cases:
  "emit ty seq pl len s =
     (case encode (Some kMaxFrame) ty seq pl len of
        None \<Rightarrow> (False, close InternalError s)
      | Some bs \<Rightarrow>
          (case bb_append (outbox s) bs of
             (True, ob) \<Rightarrow> (True, s\<lparr>outbox := ob\<rparr>)
           | (False, ob) \<Rightarrow> (False, close OutputOverflow (s\<lparr>outbox := ob\<rparr>))))"
  by (simp add: emit_def Let_def split: option.split prod.split bool.split)

lemma emit_set_parser:
  "emit ty seq pl len (s\<lparr>parser := p\<rparr>) =
     map_prod id (\<lambda>s. s\<lparr>parser := p\<rparr>) (emit ty seq pl len s)"
  by (auto simp: emit_def close_def Let_def split: option.split prod.split)

text \<open>The frame with a given payload.\<close>

definition mk_frame :: "byte \<Rightarrow> u16 \<Rightarrow> byte list \<Rightarrow> Frame" where
  "mk_frame ty seq pl = \<lparr>ftype = ty, fseq = seq, flen = of_nat (length pl), fpayload = pl\<rparr>"

lemma mk_frame_simps [simp]:
  "ftype (mk_frame ty seq pl) = ty" "fseq (mk_frame ty seq pl) = seq"
  "flen (mk_frame ty seq pl) = of_nat (length pl)" "fpayload (mk_frame ty seq pl) = pl"
  by (simp_all add: mk_frame_def)

lemma of_nat_le_300: "n \<le> 300 \<Longrightarrow> (of_nat n :: u16) \<le> 300"
  by (simp add: word_le_nat_alt)

lemma frame_wf_mk_frame [simp]: "length pl \<le> 300 \<Longrightarrow> frame_wf (mk_frame ty seq pl)"
  by (simp add: frame_wf_def of_nat_le_300)

lemma encode_mk_frame:
  assumes "length pl \<le> 300" and "len = of_nat (length pl)"
  shows "encode (Some kMaxFrame) ty seq (Some pl) len = Some (frame_bytes (mk_frame ty seq pl))"
  using encode_frame [of "mk_frame ty seq pl" kMaxFrame] assms by simp

text \<open>
  Emission of a well-formed frame: it is appended to the queue whole, or the session closes
  with an overflow and the queue is unchanged.
\<close>

lemma emit_frame:
  assumes "bb_invar (outbox s)" and "encode (Some kMaxFrame) ty seq pl len = Some bs"
  obtains (sent) ob where "emit ty seq pl len s = (True, s\<lparr>outbox := ob\<rparr>)" "bb_invar ob"
      "bb_data ob = bb_data (outbox s) @ bs" "bb_cap ob = bb_cap (outbox s)"
    | (overflow) "emit ty seq pl len s = (False, close OutputOverflow s)"
proof (cases "length (bb_data (outbox s)) + length bs \<le> bb_cap (outbox s)")
  case True
  let ?ob = "snd (bb_append (outbox s) bs)"
  have "fst (bb_append (outbox s) bs)" "bb_data ?ob = bb_data (outbox s) @ bs"
    using bb.append_fits [OF assms(1) True] by auto
  then have "emit ty seq pl len s = (True, s\<lparr>outbox := ?ob\<rparr>)"
    using assms(2) by (simp add: emit_def Let_def split_beta)
  moreover have "bb_invar ?ob" "bb_cap ?ob = bb_cap (outbox s)"
    using assms(1) by (simp_all add: bb.invar_append bb.capacity_append)
  ultimately show ?thesis using \<open>bb_data ?ob = _\<close> by (intro sent)
next
  case False
  then have "bb_append (outbox s) bs = (False, outbox s)"
    using assms(1) by (intro bb.append_overflow) simp_all
  then have "emit ty seq pl len s = (False, close OutputOverflow s)"
    using assms(2) by (simp add: emit_def)
  then show ?thesis by (rule overflow)
qed

subsection \<open>The read loop\<close>

abbreviation sb_parser :: "XrSession \<times> 'b \<Rightarrow> Parser" where
  "sb_parser sb \<equiv> parser (fst sb)"

abbreviation sb_set_parser :: "Parser \<Rightarrow> XrSession \<times> 'b \<Rightarrow> XrSession \<times> 'b" where
  "sb_set_parser p sb \<equiv> map_prod (\<lambda>s. s\<lparr>parser := p\<rparr>) id sb"

lemma sb_set_parser_twice: "sb_set_parser q (sb_set_parser p sb) = sb_set_parser q sb"
  by (cases sb) simp

lemma arm_set_parser [simp]: "arm now t r (s\<lparr>parser := p\<rparr>) = (arm now t r s)\<lparr>parser := p\<rparr>"
  by (simp add: arm_def)

text \<open>Updating the parser commutes with updating any other field.\<close>

lemma set_parser_commute:
  "s\<lparr>parser := p, nonce := a\<rparr> = s\<lparr>nonce := a, parser := p\<rparr>"
  "s\<lparr>parser := p, phase := ph\<rparr> = s\<lparr>phase := ph, parser := p\<rparr>"
  "s\<lparr>parser := p, config_op_token := t\<rparr> = s\<lparr>config_op_token := t, parser := p\<rparr>"
  "s\<lparr>parser := p, requested_cfg := c\<rparr> = s\<lparr>requested_cfg := c, parser := p\<rparr>"
  "s\<lparr>parser := p, tx_seq := q\<rparr> = s\<lparr>tx_seq := q, parser := p\<rparr>"
  "s\<lparr>parser := p, tx_in_flight := b\<rparr> = s\<lparr>tx_in_flight := b, parser := p\<rparr>"
  "s\<lparr>parser := p, tx_deadline_at := d\<rparr> = s\<lparr>tx_deadline_at := d, parser := p\<rparr>"
  "s\<lparr>parser := p, awaiting_pong := b\<rparr> = s\<lparr>awaiting_pong := b, parser := p\<rparr>"
  "s\<lparr>parser := p, last_pong_rtt_ms := d\<rparr> = s\<lparr>last_pong_rtt_ms := d, parser := p\<rparr>"
  "s\<lparr>parser := p, late_pong_warns := w\<rparr> = s\<lparr>late_pong_warns := w, parser := p\<rparr>"
  "s\<lparr>parser := p, next_ping_at := d\<rparr> = s\<lparr>next_ping_at := d, parser := p\<rparr>"
  by simp_all

lemma handle_hello_set_parser:
  "handle_hello ssl now f (s\<lparr>parser := p\<rparr>) = (handle_hello ssl now f s)\<lparr>parser := p\<rparr>"
  by (simp add: handle_hello_def Let_def split_beta emit_set_parser set_parser_commute
      del: XrSession.update_convs split: option.split)

lemma handle_auth_set_parser:
  "handle_auth ssl now f (s\<lparr>parser := p\<rparr>) = (handle_auth ssl now f s)\<lparr>parser := p\<rparr>"
  by (simp add: handle_auth_def Let_def split_beta emit_set_parser set_parser_commute
      del: XrSession.update_convs)

lemma handle_configure_set_parser:
  "handle_configure B now f (s\<lparr>parser := p\<rparr>, b) = sb_set_parser p (handle_configure B now f (s, b))"
  by (simp add: handle_configure_def Let_def split_beta emit_set_parser set_parser_commute
      del: XrSession.update_convs split: option.split)

lemma handle_ready_frame_set_parser:
  "handle_ready_frame B now f (s\<lparr>parser := p\<rparr>, b) =
     sb_set_parser p (handle_ready_frame B now f (s, b))"
  by (simp add: handle_ready_frame_def Let_def split_beta set_parser_commute
      del: XrSession.update_convs)

lemma handle_frame_set_parser:
  "handle_frame B ssl now f (sb_set_parser p sb) = sb_set_parser p (handle_frame B ssl now f sb)"
  by (cases sb)
     (simp add: handle_frame_def handle_hello_set_parser handle_auth_set_parser
        handle_configure_set_parser handle_ready_frame_set_parser split: Phase.split)

lemma parserPush_status:
  assumes "parserPush p (Some xs) (length xs) = (st, took, p')" and "xs \<noteq> []"
  shows "st \<noteq> PARSER_PUSH_INVALID_INPUT" and "st = PARSER_PUSH_NEED_DRAIN \<and> took = 0 \<longleftrightarrow> took = 0"
  using parserPush_have [OF assms(1)] assms(2) by auto

lemma feed_loop_shape:
  "feed_loop B ssl now xs sb =
     (case parserPop (sb_parser sb) of
        (POP_GOT_FRAME f, p) \<Rightarrow>
          if phase (fst (handle_frame B ssl now f (sb_set_parser p sb))) = Closed
          then handle_frame B ssl now f (sb_set_parser p sb)
          else feed_loop B ssl now xs (handle_frame B ssl now f (sb_set_parser p sb))
      | (POP_ERROR e, p) \<Rightarrow> map_prod (close ParserError) id (sb_set_parser p sb)
      | (POP_NEED_MORE, p) \<Rightarrow>
          if xs = [] then sb_set_parser p sb
          else if fst (parser_push p xs) = 0
          then map_prod (close ParserError) id (sb_set_parser (snd (parser_push p xs)) sb)
          else feed_loop B ssl now (drop (fst (parser_push p xs)) xs)
            (sb_set_parser (snd (parser_push p xs)) sb))"
proof -
  obtain s b where sb: "sb = (s, b)" by fastforce
  obtain r p where pop: "parserPop (parser s) = (r, p)" by fastforce
  show ?thesis
  proof (cases r)
    case POP_NEED_MORE
    obtain st took p' where push: "parserPush p (Some xs) (length xs) = (st, took, p')"
      by (metis prod_cases3)
    then have pp: "parser_push p xs = (took, p')" by (simp add: parser_push_def)
    show ?thesis
    proof (cases "xs = []")
      case True
      with pop POP_NEED_MORE show ?thesis by (simp add: sb feed_loop.simps [of B ssl now "[]" s b])
    next
      case False
      note st = parserPush_status [OF push False]
      from pop POP_NEED_MORE False push st show ?thesis
        by (simp add: sb pp feed_loop.simps [of B ssl now xs s b] Let_def)
    qed
  qed (simp_all add: sb pop feed_loop.simps [of B ssl now xs s b] Let_def)
qed

interpretation xrs: parser_loop parser_invar parser_held kMaxFrame parser_push parserPop xr_deframe
    "sb_parser :: XrSession \<times> 'b \<Rightarrow> Parser" sb_set_parser "handle_frame B ssl now"
    "map_prod (close ParserError) id" "\<lambda>sb. phase (fst sb) = Closed" "feed_loop B ssl now"
  for B :: "'b RadioBackend" and ssl :: openssl and now :: u64
proof unfold_locales
  fix xs and sb :: "XrSession \<times> 'b"
  show "feed_loop B ssl now xs sb = (case parserPop (sb_parser sb) of
      (POP_NEED_MORE, p) \<Rightarrow>
        if xs = [] then sb_set_parser p sb
        else if fst (parser_push p xs) = 0
        then map_prod (close ParserError) id (sb_set_parser (snd (parser_push p xs)) sb)
        else feed_loop B ssl now (drop (fst (parser_push p xs)) xs)
          (sb_set_parser (snd (parser_push p xs)) sb)
    | (POP_GOT_FRAME f, p) \<Rightarrow>
        if phase (fst (handle_frame B ssl now f (sb_set_parser p sb))) = Closed
        then handle_frame B ssl now f (sb_set_parser p sb)
        else feed_loop B ssl now xs (handle_frame B ssl now f (sb_set_parser p sb))
    | (POP_ERROR e, p) \<Rightarrow> map_prod (close ParserError) id (sb_set_parser p sb))"
    by (rule feed_loop_shape)
qed (auto simp: handle_frame_set_parser sb_set_parser_twice)

subsection \<open>The session invariant\<close>

text \<open>The close reason that the deadline of a phase carries.\<close>

fun phase_deadline :: "Phase \<Rightarrow> CloseReason option" where
  "phase_deadline WaitHello = Some HandshakeTimeout"
| "phase_deadline WaitAuth = Some AuthTimeout"
| "phase_deadline WaitConfigure = Some ConfigTimeout"
| "phase_deadline Configuring = Some ConfigTimeout"
| "phase_deadline Ready = None"
| "phase_deadline Closed = None"

definition deadline_ok :: "Phase \<Rightarrow> bool \<Rightarrow> CloseReason \<Rightarrow> bool" where
  "deadline_ok ph active reason \<longleftrightarrow>
     (case phase_deadline ph of None \<Rightarrow> \<not> active | Some r \<Rightarrow> active \<and> reason = r)"

lemma deadline_ok_simps [simp]:
  "phase_deadline ph = None \<Longrightarrow> deadline_ok ph active reason \<longleftrightarrow> \<not> active"
  "phase_deadline ph = Some r \<Longrightarrow> deadline_ok ph active reason \<longleftrightarrow> active \<and> reason = r"
  by (simp_all add: deadline_ok_def)

definition sess_inv :: "XrSession \<Rightarrow> bool" where
  "sess_inv s \<longleftrightarrow> bb_invar (outbox s) \<and> parser_invar (parser s) \<and>
     deadline_ok (phase s) (deadline_active s) (deadline_reason s) \<and>
     (tx_in_flight s \<longrightarrow> phase s = Ready \<and> tx_seq s \<noteq> 0) \<and>
     (awaiting_pong s \<longrightarrow> phase s = Ready \<or> phase s = Closed) \<and>
     (phase s = Closed \<longleftrightarrow> close_reason s \<noteq> NoReason) \<and>
     (phase s = Configuring \<or> phase s = Ready \<longrightarrow>
        radioConfigValid (requested_cfg s) \<and> config_op_token s \<noteq> 0) \<and>
     (phase s = Ready \<longrightarrow> applied_cfg s = requested_cfg s) \<and>
     (phase s = WaitAuth \<longrightarrow> password_configured (auth s))"

lemma sess_invD:
  assumes "sess_inv s"
  shows "bb_invar (outbox s)" "parser_invar (parser s)"
    "tx_in_flight s \<Longrightarrow> phase s = Ready" "tx_in_flight s \<Longrightarrow> tx_seq s \<noteq> 0"
    "phase s = Closed \<longleftrightarrow> close_reason s \<noteq> NoReason"
  using assms by (auto simp: sess_inv_def)

lemma sess_inv_close [intro]: "sess_inv s \<Longrightarrow> r \<noteq> NoReason \<Longrightarrow> sess_inv (close r s)"
  by (auto simp: sess_inv_def close_def)

lemma sess_inv_outbox: "sess_inv s \<Longrightarrow> bb_invar ob \<Longrightarrow> sess_inv (s\<lparr>outbox := ob\<rparr>)"
  by (auto simp: sess_inv_def)

lemma sess_inv_parser: "sess_inv s \<Longrightarrow> parser_invar p \<Longrightarrow> sess_inv (s\<lparr>parser := p\<rparr>)"
  by (auto simp: sess_inv_def)

lemma bb_invar_append_result: "bb_invar b \<Longrightarrow> bb_append b bs = (ok, b') \<Longrightarrow> bb_invar b'"
  using bb.invar_append [of b bs] by simp

lemma sess_inv_emit [intro]:
  assumes "sess_inv s"
  shows "sess_inv (snd (emit ty seq pl len s))"
  using assms
  by (auto simp: emit_cases intro!: sess_inv_close sess_inv_outbox
      intro: bb_invar_append_result [OF sess_invD(1)]
      split: option.split prod.split bool.split)

lemma emit_ok_eq:
  "emit ty seq pl len s = (True, s') \<Longrightarrow> \<exists>ob. s' = s\<lparr>outbox := ob\<rparr> \<and> (bb_invar (outbox s) \<longrightarrow> bb_invar ob)"
  by (auto simp: emit_cases bb_invar_append_result split: option.splits prod.splits bool.splits)

lemma emit_fail_closed: "emit ty seq pl len s = (False, s') \<Longrightarrow> phase s' = Closed"
  by (auto simp: emit_cases split: option.splits prod.splits bool.splits)

text \<open>Moving to the next phase of the handshake with a fresh deadline.\<close>

lemma sess_inv_arm:
  assumes "sess_inv s" and "phase s \<noteq> Closed" and "\<not> tx_in_flight s" and "\<not> awaiting_pong s"
    and "phase_deadline ph = Some r"
    and "ph = Configuring \<Longrightarrow> radioConfigValid (requested_cfg s) \<and> config_op_token s \<noteq> 0"
    and "ph = WaitAuth \<Longrightarrow> password_configured (auth s)"
  shows "sess_inv (arm now t r (s\<lparr>phase := ph\<rparr>))"
  using assms by (cases ph) (auto simp: sess_inv_def arm_def)

lemma early_phase:
  assumes "sess_inv s" and "phase s = WaitHello \<or> phase s = WaitAuth \<or> phase s = WaitConfigure \<or> phase s = Configuring"
  shows "\<not> tx_in_flight s" "\<not> awaiting_pong s" "phase s \<noteq> Closed"
  using assms by (auto simp: sess_inv_def)

text \<open>A successful emission keeps everything but the queue.\<close>

lemma emitE:
  assumes "sess_inv s"
  obtains (sent) ob where "emit ty seq pl len s = (True, s\<lparr>outbox := ob\<rparr>)" "sess_inv (s\<lparr>outbox := ob\<rparr>)"
    | (failed) s' where "emit ty seq pl len s = (False, s')" "sess_inv s'" "phase s' = Closed"
proof (cases "fst (emit ty seq pl len s)")
  case True
  then obtain s' where s': "emit ty seq pl len s = (True, s')" by (metis prod.collapse)
  with emit_ok_eq obtain ob where "s' = s\<lparr>outbox := ob\<rparr>" by blast
  with s' sess_inv_emit [OF assms, of ty seq pl len] show ?thesis by (intro sent) auto
next
  case False
  then obtain s' where s': "emit ty seq pl len s = (False, s')" by (metis prod.collapse)
  with emit_fail_closed sess_inv_emit [OF assms, of ty seq pl len] show ?thesis
    by (intro failed) auto
qed

subsection \<open>Preservation of the invariant\<close>

lemma sess_inv_open:
  assumes "bb_invar (outbox s)" and "parser_invar (parser s)"
  shows "sess_inv (fst (open_session B now (s, b)))"
  using assms
  by (simp add: open_session_def arm_def sess_inv_def Let_def bb.invar_clear)

lemma sess_inv_hello:
  assumes inv: "sess_inv s" and ph: "phase s = WaitHello"
  shows "sess_inv (handle_hello ssl now f s)"
proof (cases "ftype f = MSG_HELLO")
  case True
  note early = early_phase [OF inv]
  from inv show ?thesis
  proof (cases rule: emitE [of s MSG_HELLO_ACK 0 "Some [kVersion]" 1])
    case (sent ob)
    let ?s = "s\<lparr>outbox := ob\<rparr>"
    have keep: "phase ?s = WaitHello" "\<not> tx_in_flight ?s" "\<not> awaiting_pong ?s"
      using ph early by auto
    show ?thesis
    proof (cases "password_configured (auth s)")
      case pw: True
      show ?thesis
      proof (cases "random_nonce ssl")
        case None
        with True sent pw show ?thesis by (simp add: handle_hello_def sess_inv_close)
      next
        case (Some r)
        have "sess_inv (?s\<lparr>nonce := r\<rparr>)" using sent(2) by (auto simp: sess_inv_def)
        then show ?thesis
        proof (cases rule: emitE [of "?s\<lparr>nonce := r\<rparr>" MSG_AUTH_CHALLENGE 0 "Some r" kAuthNonceSize])
          case s2: (sent ob')
          then show ?thesis
            using True sent Some pw keep
            by (auto simp: handle_hello_def Let_def intro!: sess_inv_arm)
        next
          case (failed s')
          with True sent Some pw show ?thesis by (simp add: handle_hello_def Let_def)
        qed
      qed
    next
      case pw: False
      from sent(2) show ?thesis
      proof (cases rule: emitE [of ?s MSG_AUTH_RESULT 0 "Some [AUTH_OK]" 1])
        case s2: (sent ob')
        then show ?thesis
          using True sent pw keep by (auto simp: handle_hello_def Let_def intro!: sess_inv_arm)
      next
        case (failed s')
        with True sent pw show ?thesis by (simp add: handle_hello_def Let_def)
      qed
    qed
  next
    case (failed s')
    with True show ?thesis by (simp add: handle_hello_def)
  qed
next
  case False
  with inv show ?thesis by (simp add: handle_hello_def sess_inv_close)
qed

lemma sess_inv_auth:
  assumes inv: "sess_inv s" and ph: "phase s = WaitAuth"
  shows "sess_inv (handle_auth ssl now f s)"
  using inv
proof (cases rule: emitE [of s MSG_AUTH_RESULT 0 "Some [AUTH_OK]" 1])
  case (sent ob)
  then show ?thesis
    using early_phase [OF inv] ph inv
    by (auto simp: handle_auth_def Let_def intro!: sess_inv_arm sess_inv_close sess_inv_emit)
next
  case (failed s')
  with inv show ?thesis
    by (auto simp: handle_auth_def Let_def intro!: sess_inv_close sess_inv_emit)
qed

lemma decodeConfig_valid: "decodeConfig f = Some c \<Longrightarrow> radioConfigValid c"
  by (auto simp: decodeConfig_def unpackConfig_def radioConfigValid_def split: if_splits)

lemma sess_inv_configure:
  assumes inv: "sess_inv s" and ph: "phase s = WaitConfigure"
  shows "sess_inv (fst (handle_configure B now f (s, b)))"
proof -
  have step: "sess_inv (arm now t ConfigTimeout
      (s\<lparr>config_op_token := k, requested_cfg := c, phase := Configuring\<rparr>))"
    if "k \<noteq> 0" "radioConfigValid c" for k c t
    using that inv ph by (auto simp: sess_inv_def arm_def)
  show ?thesis
    using inv step
    by (auto simp: handle_configure_def Let_def split_beta intro!: sess_inv_close sess_inv_emit
        split: option.splits if_splits)
qed

lemma sess_inv_ready_frame:
  assumes inv: "sess_inv s" and ph: "phase s = Ready" and ok: "validate f = ERR_NONE"
  shows "sess_inv (fst (handle_ready_frame B now f (s, b)))"
proof -
  have seq: "ftype f = MSG_TX_REQUEST \<Longrightarrow> fseq f \<noteq> 0"
    using ok by (auto simp: validate_def Let_def split: if_splits)
  show ?thesis
    using inv ph seq
    by (auto simp: handle_ready_frame_def Let_def split_beta intro!: sess_inv_close)
       (auto simp: sess_inv_def)
qed

lemma sess_inv_handle_frame:
  assumes "sess_inv (fst sb)"
  shows "sess_inv (fst (handle_frame B ssl now f sb))"
  using assms
  by (cases sb)
     (auto simp: handle_frame_def intro: sess_inv_close sess_inv_hello sess_inv_auth
        sess_inv_configure sess_inv_ready_frame split: Phase.split)

lemma sess_inv_on_configure_complete:
  assumes inv: "sess_inv s"
  shows "sess_inv (on_configure_complete now t res s)"
proof (cases "phase s = Configuring \<and> t = config_op_token s \<and> applied res \<and>
    effective res = requested_cfg s")
  case True
  let ?s = "s\<lparr>applied_cfg := effective res\<rparr>"
  let ?body = "CFG_OK # pack_config (effective res)"
  have "sess_inv ?s" using inv True by (auto simp: sess_inv_def)
  then show ?thesis
  proof (cases rule: emitE [of ?s MSG_CONFIG_RESULT 0 "Some ?body" "of_nat (length ?body)"])
    case (sent ob)
    then show ?thesis using True
      by (auto simp: on_configure_complete_def Let_def enter_ready_def) (auto simp: sess_inv_def)
  next
    case (failed s')
    with True show ?thesis by (simp add: on_configure_complete_def Let_def)
  qed
next
  case False
  with inv show ?thesis
    by (auto simp: on_configure_complete_def Let_def intro!: sess_inv_close sess_inv_emit)
qed

lemma sess_inv_on_event: "sess_inv s \<Longrightarrow> sess_inv (on_event now e s)"
proof (cases e)
  case (OnRx rx)
  assume "sess_inv s"
  with OnRx show ?thesis by (auto simp: on_rx_def Let_def intro!: sess_inv_emit)
next
  case (OnTxComplete r)
  assume inv: "sess_inv s"
  then have "sess_inv (s\<lparr>tx_in_flight := False\<rparr>)" by (auto simp: sess_inv_def)
  with OnTxComplete inv show ?thesis
    by (auto simp: on_tx_complete_def map_and_send_tx_result_def Let_def intro!: sess_inv_emit)
qed (auto simp: on_backend_failure_def intro!: sess_inv_close sess_inv_on_configure_complete)

lemma sess_inv_events: "sess_inv s \<Longrightarrow> sess_inv (fold (on_event now) es s)"
  by (induction es arbitrary: s) (auto intro: sess_inv_on_event)

lemma sess_inv_tick:
  assumes inv: "sess_inv s"
  shows "sess_inv (fst (tick B now (s, b)))"
proof -
  have dl: "deadline_active s \<Longrightarrow> deadline_reason s \<noteq> NoReason"
    using inv by (cases "phase s") (auto simp: sess_inv_def)
  from inv show ?thesis
  proof (cases rule: emitE [of s MSG_PING 0 None 0])
    case (sent ob)
    then show ?thesis
      using inv dl
      by (auto simp: tick_def Let_def intro!: sess_inv_close) (auto simp: sess_inv_def)
  next
    case (failed s')
    with inv dl show ?thesis by (auto simp: tick_def Let_def intro!: sess_inv_close)
  qed
qed

text \<open>The part of the invariant that does not concern the parser.\<close>

lemma sess_inv_split:
  "sess_inv s \<longleftrightarrow> sess_inv (s\<lparr>parser := parser_init\<rparr>) \<and> parser_invar (parser s)"
  by (auto simp: sess_inv_def)

lemma sess_inv_feed:
  assumes "sess_inv (fst sb)"
  shows "sess_inv (fst (feed B ssl now data sb))"
proof -
  let ?P = "\<lambda>sb :: XrSession \<times> 'a. sess_inv (fst (sb_set_parser parser_init sb))"
  from assms have inv: "parser_invar (sb_parser sb)" and P: "?P sb"
    using sess_inv_split [of "fst sb"] by auto
  have "?P (feed_loop B ssl now data sb)"
    using inv P
  proof (rule xrs.loop_keeps)
    fix f and sb :: "XrSession \<times> 'a" assume "?P sb"
    then have "sess_inv (fst (handle_frame B ssl now f (sb_set_parser parser_init sb)))"
      by (rule sess_inv_handle_frame)
    then show "?P (handle_frame B ssl now f sb)"
      by (simp only: handle_frame_set_parser)
  next
    fix sb :: "XrSession \<times> 'a" assume "?P sb"
    then have "sess_inv (close ParserError ((fst sb)\<lparr>parser := parser_init\<rparr>))"
      by (intro sess_inv_close) simp_all
    then show "?P (map_prod (close ParserError) id sb)" by simp
  qed simp
  moreover have "parser_invar (sb_parser (feed_loop B ssl now data sb))"
    using xrs.loop_spec [OF inv] by blast
  ultimately have "sess_inv (fst (feed_loop B ssl now data sb))"
    using sess_inv_split [of "fst (feed_loop B ssl now data sb)"] by simp
  with assms show ?thesis by (simp add: feed_def)
qed


subsection \<open>Deadlines\<close>

text \<open>The deadlines that are armed, and that \<^verbatim>\<open>next_deadline_ms\<close> is the first of them.\<close>

definition armed :: "XrSession \<Rightarrow> u64 set" where
  "armed s = (if deadline_active s then {deadline_at s} else {}) \<union>
     (if phase s = Ready
      then (if tx_in_flight s then {tx_deadline_at s} else {}) \<union>
        {if awaiting_pong s then pong_deadline_at s else next_ping_at s}
      else {})"

lemma take_min: "(if t < n then t else n) = min t (n :: u64)"
  by (auto simp: min_def)

lemma next_deadline_Min:
  assumes "phase s \<noteq> Closed"
  shows "next_deadline_ms s = Min (insert UINT64_MAX (armed s))"
  using assms unfolding next_deadline_ms_def armed_def Let_def take_min
  by (cases "deadline_active s"; cases "phase s = Ready"; cases "tx_in_flight s"; cases "awaiting_pong s")
     (simp_all add: min.left_commute min.commute)

lemma finite_armed [simp]: "finite (armed s)"
  by (simp add: armed_def)

lemma next_deadline_closed: "phase s = Closed \<Longrightarrow> next_deadline_ms s = UINT64_MAX"
  by (simp add: next_deadline_ms_def)

lemma next_deadline_armed:
  "phase s \<noteq> Closed \<Longrightarrow> d \<in> armed s \<Longrightarrow> next_deadline_ms s \<le> d"
  by (simp add: next_deadline_Min)

text \<open>Before the next deadline the passing of time does nothing.\<close>

lemma tick_early: "now < next_deadline_ms s \<Longrightarrow> tick B now (s, b) = (s, b)"
  using next_deadline_armed [of s "deadline_at s"] next_deadline_armed [of s "tx_deadline_at s"]
    next_deadline_armed [of s "pong_deadline_at s"] next_deadline_armed [of s "next_ping_at s"]
  by (auto simp: tick_def armed_def)

lemma armed_nonempty: "sess_inv s \<Longrightarrow> phase s \<noteq> Closed \<Longrightarrow> armed s \<noteq> {}"
  by (cases "phase s") (auto simp: sess_inv_def armed_def)

lemma deadline_due:
  assumes "sess_inv s" and "phase s \<noteq> Closed" and "next_deadline_ms s \<le> now"
  shows "\<exists>d \<in> armed s. d \<le> now"
proof -
  have "next_deadline_ms s \<in> insert UINT64_MAX (armed s)"
    unfolding next_deadline_Min [OF assms(2)] by (rule Min_in) simp_all
  then consider "next_deadline_ms s \<in> armed s" | "UINT64_MAX \<le> now" using assms(3) by auto
  then show ?thesis
  proof cases
    case 2
    then have "d \<le> now" for d using UINT64_MAX_top [of d] by (rule order_trans [rotated])
    with armed_nonempty [OF assms(1,2)] show ?thesis by auto
  qed (use assms(3) in auto)
qed

text \<open>From it on, time closes the session or sends the PING that was due.\<close>

lemma tick_due:
  assumes "sess_inv s" and "phase s \<noteq> Closed" and "next_deadline_ms s \<le> now"
  shows "phase (fst (tick B now (s, b))) = Closed \<or>
     (phase s = Ready \<and> \<not> awaiting_pong s \<and> awaiting_pong (fst (tick B now (s, b))))"
proof -
  obtain ok s' where s': "emit MSG_PING 0 None 0 s = (ok, s')" by fastforce
  then have "\<not> ok \<Longrightarrow> phase s' = Closed" using emit_fail_closed by (metis (full_types))
  with s' deadline_due [OF assms] assms(2) show ?thesis
    by (cases ok) (auto simp: tick_def armed_def Let_def split: if_splits)
qed

end
