(* ===== verification/Xr_Server_Spec.thy ===== *)
theory Xr_Server_Spec
  imports Xr_Session_Lemmas "HOL-Library.Sublist"
begin

text \<open>
  What the bridge promises a firmware client, as an abstract labelled machine: its states
  carry only the nonce of a running challenge, the configuration being applied and the
  sequence number of the transmission in flight; a step consumes one input (a frame, a
  backend event, the passing of time) and emits frames.  The properties of whole sessions
  are proved here, on the machine; \<open>Xr_Session_Refine\<close> shows that the session of the
  sources refines it.
\<close>

subsection \<open>The machine\<close>

datatype server_state =
    SHello
  | SAuth "byte list"
  | SConfigure
  | SConfiguring RadioConfig
  | SReady "u16 option"
  | SClosed

datatype server_input = InFrame Frame | InEvent SinkEvent | InTick

definition hello_ack :: Frame where
  "hello_ack = mk_frame MSG_HELLO_ACK 0 [kVersion]"

definition auth_challenge :: "byte list \<Rightarrow> Frame" where
  "auth_challenge n = mk_frame MSG_AUTH_CHALLENGE 0 n"

definition auth_result :: "byte \<Rightarrow> Frame" where
  "auth_result r = mk_frame MSG_AUTH_RESULT 0 [r]"

definition config_ok :: "RadioConfig \<Rightarrow> Frame" where
  "config_ok c = mk_frame MSG_CONFIG_RESULT 0 (CFG_OK # packConfig c)"

definition config_reject :: "byte \<Rightarrow> Frame" where
  "config_reject r = mk_frame MSG_CONFIG_RESULT 0 [r]"

definition tx_result :: "u16 \<Rightarrow> TxOutcome \<Rightarrow> Frame" where
  "tx_result q r = mk_frame MSG_TX_RESULT q [tx_outcome_to_wire r]"

definition rx_packet :: "RxEvent \<Rightarrow> Frame" where
  "rx_packet rx = mk_frame MSG_RX_PACKET 0 (put16 (rssi_cdbm rx) @ put16 (snr_cdb rx) @
     put16 (rx_event_len rx) @ take (unat (rx_event_len rx)) (rx_event_data rx))"

definition ping :: Frame where
  "ping = mk_frame MSG_PING 0 []"

lemmas server_frame_defs = hello_ack_def auth_challenge_def auth_result_def config_ok_def
  config_reject_def tx_result_def rx_packet_def ping_def

inductive server_step ::
  "bool \<Rightarrow> (byte list \<Rightarrow> Frame \<Rightarrow> bool) \<Rightarrow> server_state \<Rightarrow> server_input \<Rightarrow> Frame list \<Rightarrow>
     server_state \<Rightarrow> bool"
  for pw :: bool and verify :: "byte list \<Rightarrow> Frame \<Rightarrow> bool" where
  hello_open: "\<not> pw \<Longrightarrow> ftype f = MSG_HELLO \<Longrightarrow>
     server_step pw verify SHello (InFrame f) [hello_ack, auth_result AUTH_OK] SConfigure"
| hello_auth: "pw \<Longrightarrow> ftype f = MSG_HELLO \<Longrightarrow> length n = 16 \<Longrightarrow>
     server_step pw verify SHello (InFrame f) [hello_ack, auth_challenge n] (SAuth n)"
| auth: "ftype f = MSG_AUTH_RESPONSE \<Longrightarrow> verify n f \<Longrightarrow>
     server_step pw verify (SAuth n) (InFrame f) [auth_result AUTH_OK] SConfigure"
| configure: "decodeConfig f = Some c \<Longrightarrow>
     server_step pw verify SConfigure (InFrame f) [] (SConfiguring c)"
| configured: "applied r \<Longrightarrow> effective r = c \<Longrightarrow> radioConfigValid c \<Longrightarrow>
     server_step pw verify (SConfiguring c) (InEvent (OnConfigureComplete t r)) [config_ok c]
       (SReady None)"
| request: "ftype f = MSG_TX_REQUEST \<Longrightarrow> fseq f \<noteq> 0 \<Longrightarrow>
     server_step pw verify (SReady None) (InFrame f) [] (SReady (Some (fseq f)))"
| result: "q \<noteq> 0 \<Longrightarrow>
     server_step pw verify (SReady (Some q)) (InEvent (OnTxComplete r)) [tx_result q r] (SReady None)"
| rx: "rxPayloadAcceptable (rx_event_len p) \<Longrightarrow> rx_wf p \<Longrightarrow>
     server_step pw verify (SReady t) (InEvent (OnRx p)) [rx_packet p] (SReady t)"
| ping: "server_step pw verify (SReady t) InTick [ping] (SReady t)"
| pong: "ftype f = MSG_PONG \<Longrightarrow> server_step pw verify (SReady t) (InFrame f) [] (SReady t)"
| ignore: "i = InTick \<or> i = InEvent e \<Longrightarrow> server_step pw verify a i [] a"
| close: "server_step pw verify a i [] SClosed"
| close_hello: "server_step pw verify SHello i [hello_ack] SClosed"
| close_auth: "\<not> verify n f \<Longrightarrow>
     server_step pw verify (SAuth n) (InFrame f) [auth_result AUTH_FAIL] SClosed"
| close_config: "r \<noteq> CFG_OK \<Longrightarrow> a = SConfigure \<or> a = SConfiguring c \<Longrightarrow>
     server_step pw verify a i [config_reject r] SClosed"

text \<open>Runs, with the list of inputs and the frames emitted on each.\<close>

inductive server_run ::
  "bool \<Rightarrow> (byte list \<Rightarrow> Frame \<Rightarrow> bool) \<Rightarrow> server_state \<Rightarrow> (server_input \<times> Frame list) list \<Rightarrow>
     server_state \<Rightarrow> bool"
  for pw :: bool and verify :: "byte list \<Rightarrow> Frame \<Rightarrow> bool" and a0 :: server_state where
  nil: "server_run pw verify a0 [] a0"
| snoc: "server_run pw verify a0 ios a \<Longrightarrow> server_step pw verify a i fs a' \<Longrightarrow>
     server_run pw verify a0 (ios @ [(i, fs)]) a'"

definition outputs :: "(server_input \<times> Frame list) list \<Rightarrow> Frame list" where
  "outputs ios = concat (map snd ios)"

lemma outputs_simps [simp]: "outputs [] = []" "outputs (ios @ [(i, fs)]) = outputs ios @ fs"
  by (simp_all add: outputs_def)

subsection \<open>Every emitted frame is a valid server message\<close>

definition server_frame :: "Frame \<Rightarrow> bool" where
  "server_frame f \<longleftrightarrow> frame_wf f \<and> validate f = ERR_NONE \<and> \<not> is_client_message (ftype f)"

lemma length_rx_payload:
  "rx_wf p \<Longrightarrow> length (fpayload (rx_packet p)) = 6 + unat (rx_event_len p)"
  by (simp add: rx_packet_def rx_wf_def)

lemma server_frame_rx:
  assumes "rxPayloadAcceptable (rx_event_len p)" and "rx_wf p"
  shows "server_frame (rx_packet p)"
proof -
  have le: "unat (rx_event_len p) \<le> 255"
    using assms(1) by (simp add: rxPayloadAcceptable_def word_le_nat_alt)
  have len: "length (fpayload (rx_packet p)) = 6 + unat (rx_event_len p)"
    by (rule length_rx_payload [OF assms(2)])
  have fl: "flen (rx_packet p) = 6 + rx_event_len p"
    using len by (simp add: rx_packet_def)
  have g: "get16 (fpayload (rx_packet p)) 4 = rx_event_len p"
    by (simp add: rx_packet_def get16_def put16_def)
  have six: "\<not> 6 + rx_event_len p < (6 :: u16)"
    using le by (simp add: word_less_nat_alt unat_word_ariths)
  have wf: "frame_wf (rx_packet p)"
    using le len by (simp add: rx_packet_def)
  have ty: "ftype (rx_packet p) = 8" "fseq (rx_packet p) = 0"
    by (simp_all add: rx_packet_def)
  show ?thesis
    using wf six assms(1)
    by (simp add: server_frame_def validate_def ty fl g isKnownType_def is_client_message_def
        rxPayloadAcceptable_def Let_def not_less)
qed

lemma server_frame_config_ok: "radioConfigValid c \<Longrightarrow> server_frame (config_ok c)"
  by (simp add: server_frame_def config_ok_def validate_def isKnownType_def is_client_message_def
      packConfig_def put32_def put16_def radioConfigValid_def Let_def)

lemma server_frame_tx_result: "q \<noteq> 0 \<Longrightarrow> server_frame (tx_result q r)"
  by (cases r)
     (simp_all add: server_frame_def tx_result_def validate_def isKnownType_def
        is_client_message_def Let_def)

lemma server_frame_small [simp]:
  "server_frame hello_ack" "server_frame ping"
  "server_frame (auth_result 0)" "server_frame (auth_result 1)"
  "length n = 16 \<Longrightarrow> server_frame (auth_challenge n)"
  "r \<noteq> 0 \<Longrightarrow> server_frame (config_reject r)"
  by (simp_all add: server_frame_def server_frame_defs validate_def isKnownType_def
      is_client_message_def Let_def)

lemma server_step_frames:
  assumes "server_step pw verify a i fs a'"
  shows "\<forall>f \<in> set fs. server_frame f"
  using assms
  by cases (auto intro: server_frame_rx server_frame_config_ok server_frame_tx_result)

lemma server_run_frames:
  "server_run pw verify a0 ios a \<Longrightarrow> \<forall>f \<in> set (outputs ios). server_frame f"
  by (induction rule: server_run.induct) (auto dest: server_step_frames)

subsection \<open>Transmissions: one result per request, in order, with its sequence number\<close>

definition requests :: "(server_input \<times> Frame list) list \<Rightarrow> u16 list" where
  "requests ios = concat (map (\<lambda>(i, fs). case i of
     InFrame f \<Rightarrow> (if ftype f = MSG_TX_REQUEST then [fseq f] else []) | _ \<Rightarrow> []) ios)"

definition results :: "Frame list \<Rightarrow> u16 list" where
  "results fs = map fseq (filter (\<lambda>f. ftype f = MSG_TX_RESULT) fs)"

lemma requests_simps [simp]:
  "requests [] = []"
  "requests (ios @ [(i, fs)]) = requests ios @
     (case i of InFrame f \<Rightarrow> (if ftype f = MSG_TX_REQUEST then [fseq f] else []) | _ \<Rightarrow> [])"
  by (simp_all add: requests_def)

lemma results_simps [simp]:
  "results [] = []" "results (fs @ gs) = results fs @ results gs"
  "results [hello_ack] = []" "results [auth_challenge n] = []" "results [auth_result r] = []"
  "results [config_ok c] = []" "results [config_reject r] = []" "results [rx_packet p] = []"
  "results [ping] = []" "results [tx_result q t] = [q]"
  "results [hello_ack, f] = results [f]"
  by (simp_all add: results_def server_frame_defs)

fun tx_balance :: "server_state \<Rightarrow> u16 list \<Rightarrow> u16 list \<Rightarrow> bool" where
  "tx_balance (SReady None) rq rs \<longleftrightarrow> rq = rs"
| "tx_balance (SReady (Some q)) rq rs \<longleftrightarrow> rq = rs @ [q]"
| "tx_balance SClosed rq rs \<longleftrightarrow> prefix rs rq"
| "tx_balance a rq rs \<longleftrightarrow> rs = [] \<and> rq = []"

lemma tx_balance_prefix: "tx_balance a rq rs \<Longrightarrow> prefix rs rq"
  by (cases "(a, rq, rs)" rule: tx_balance.cases) auto

lemma decodeConfig_type: "decodeConfig f = Some c \<Longrightarrow> ftype f = MSG_CONFIGURE"
  by (auto simp: decodeConfig_def split: if_splits)

lemma server_step_balance:
  assumes "server_step pw verify a i fs a'" and "tx_balance a (requests ios) (results os)"
  shows "tx_balance a' (requests (ios @ [(i, fs)])) (results (os @ fs))"
  using assms
proof cases
  case (close_config r c)
  with assms(2) show ?thesis by (auto split: server_input.split)
next
  case close
  with tx_balance_prefix [OF assms(2)] show ?thesis by (auto split: server_input.split)
qed (auto simp: decodeConfig_type split: server_input.split)

lemma server_run_balance:
  "server_run pw verify SHello ios a \<Longrightarrow> tx_balance a (requests ios) (results (outputs ios))"
  by (induction rule: server_run.induct) (auto simp del: requests_simps(2) results_simps(2)
      intro: server_step_balance simp: outputs_simps)

subsection \<open>Nothing operational before the configuration echo\<close>

definition operational :: "Frame \<Rightarrow> bool" where
  "operational f \<longleftrightarrow> ftype f = MSG_RX_PACKET \<or> ftype f = MSG_TX_RESULT \<or> ftype f = MSG_PING"

lemma operational_simps [simp]:
  "\<not> operational hello_ack" "\<not> operational (auth_challenge n)" "\<not> operational (auth_result r)"
  "\<not> operational (config_ok c)" "\<not> operational (config_reject r)"
  by (simp_all add: operational_def server_frame_defs)

text \<open>A configuration that was requested by the client and confirmed to it.\<close>

definition confirmed :: "(server_input \<times> Frame list) list \<Rightarrow> Frame list \<Rightarrow> bool" where
  "confirmed ios fs \<longleftrightarrow> (\<exists>c f. InFrame f \<in> fst ` set ios \<and> decodeConfig f = Some c \<and>
     config_ok c \<in> set fs)"

definition gated :: "(server_input \<times> Frame list) list \<Rightarrow> Frame list \<Rightarrow> bool" where
  "gated ios fs \<longleftrightarrow> (\<forall>xs f ys. fs = xs @ f # ys \<longrightarrow> operational f \<longrightarrow> confirmed ios xs)"

lemma confirmed_mono:
  "confirmed ios fs \<Longrightarrow> set ios \<subseteq> set ios' \<Longrightarrow> set fs \<subseteq> set fs' \<Longrightarrow> confirmed ios' fs'"
  unfolding confirmed_def by (meson image_mono subsetD)

lemma gated_quiet:
  assumes "gated ios fs" and "\<forall>g \<in> set gs. \<not> operational g" and "set ios \<subseteq> set ios'"
  shows "gated ios' (fs @ gs)"
  unfolding gated_def
proof (intro allI impI)
  fix xs f ys assume eq: "fs @ gs = xs @ f # ys" and op: "operational f"
  from eq consider us where "fs = xs @ f # us" | us where "gs = us @ f # ys"
    by (auto simp: append_eq_append_conv2 append_eq_Cons_conv)
  then show "confirmed ios' xs"
  proof cases
    case 1
    with assms(1) op have "confirmed ios xs" by (auto simp: gated_def)
    with assms(3) show ?thesis by (auto intro: confirmed_mono)
  next
    case 2
    with assms(2) op show ?thesis by auto
  qed
qed

lemma gated_one:
  assumes "gated ios fs" and "confirmed ios fs" and "set ios \<subseteq> set ios'"
  shows "gated ios' (fs @ [g])"
  unfolding gated_def
proof (intro allI impI)
  fix xs f ys assume eq: "fs @ [g] = xs @ f # ys" and op: "operational f"
  from eq consider us where "fs = xs @ f # us" | "xs = fs"
    by (auto simp: append_eq_append_conv2 Cons_eq_append_conv append_eq_Cons_conv)
  then show "confirmed ios' xs"
  proof cases
    case 1
    with assms(1) op have "confirmed ios xs" by (auto simp: gated_def)
    with assms(3) show ?thesis by (auto intro: confirmed_mono)
  next
    case 2
    with assms(2,3) show ?thesis by (auto intro: confirmed_mono)
  qed
qed

text \<open>What a state of the machine records about the run that led to it.\<close>

fun config_history :: "server_state \<Rightarrow> (server_input \<times> Frame list) list \<Rightarrow> bool" where
  "config_history (SConfiguring c) ios \<longleftrightarrow>
     (\<exists>f. InFrame f \<in> fst ` set ios \<and> decodeConfig f = Some c)"
| "config_history (SReady t) ios \<longleftrightarrow> confirmed ios (outputs ios)"
| "config_history a ios \<longleftrightarrow> True"

lemma server_step_gated:
  assumes "server_step pw verify a i fs a'" and "config_history a ios" and "gated ios (outputs ios)"
  shows "config_history a' (ios @ [(i, fs)]) \<and>
     gated (ios @ [(i, fs)]) (outputs (ios @ [(i, fs)]))"
proof -
  have sub: "set ios \<subseteq> set (ios @ [(i, fs)])" by auto
  have mono: "confirmed ios (outputs ios) \<Longrightarrow> confirmed (ios @ [(i, fs)]) (outputs ios @ fs)"
    by (rule confirmed_mono) auto
  have hist: "config_history a (ios @ [(i, fs)])"
    using assms(2) mono by (cases "(a, ios)" rule: config_history.cases) auto
  show ?thesis
    using assms(1)
  proof cases
    case (configure f c)
    with gated_quiet [OF assms(3), of "[]"] sub show ?thesis by auto
  next
    case (configured r c t)
    with gated_quiet [OF assms(3) _ sub, of fs] hist show ?thesis
      by (auto simp: confirmed_def)
  next
    case (result q r)
    with gated_one [OF assms(3) _ sub] assms(2) mono show ?thesis by auto
  next
    case (rx p t)
    with gated_one [OF assms(3) _ sub] assms(2) mono show ?thesis by auto
  next
    case (ping t)
    with gated_one [OF assms(3) _ sub] assms(2) mono show ?thesis by auto
  next
    case (request f)
    with gated_quiet [OF assms(3) _ sub, of "[]"] assms(2) mono show ?thesis by auto
  next
    case (pong f t)
    with gated_quiet [OF assms(3) _ sub, of "[]"] assms(2) mono show ?thesis by auto
  next
    case (ignore e)
    with gated_quiet [OF assms(3) _ sub, of "[]"] hist show ?thesis by auto
  qed (use gated_quiet [OF assms(3) _ sub, of fs] in auto)
qed

lemma server_run_gated:
  "server_run pw verify SHello ios a \<Longrightarrow> config_history a ios \<and> gated ios (outputs ios)"
proof (induction rule: server_run.induct)
  case nil
  show ?case by (simp add: gated_def)
next
  case (snoc ios a i fs a')
  then show ?case using server_step_gated [of pw verify a i fs a' ios] by blast
qed

subsection \<open>No configuration without a verified response\<close>

definition authenticated ::
  "(byte list \<Rightarrow> Frame \<Rightarrow> bool) \<Rightarrow> (server_input \<times> Frame list) list \<Rightarrow> bool" where
  "authenticated verify ios \<longleftrightarrow> (\<exists>n f. auth_challenge n \<in> set (outputs ios) \<and>
     InFrame f \<in> fst ` set ios \<and> verify n f)"

lemma authenticated_snoc: "authenticated verify ios \<Longrightarrow> authenticated verify (ios @ [io])"
  by (cases io) (auto simp: authenticated_def)

fun auth_history ::
  "(byte list \<Rightarrow> Frame \<Rightarrow> bool) \<Rightarrow> server_state \<Rightarrow> (server_input \<times> Frame list) list \<Rightarrow> bool" where
  "auth_history verify (SAuth n) ios \<longleftrightarrow> auth_challenge n \<in> set (outputs ios)"
| "auth_history verify SConfigure ios \<longleftrightarrow> authenticated verify ios"
| "auth_history verify (SConfiguring c) ios \<longleftrightarrow> authenticated verify ios"
| "auth_history verify (SReady t) ios \<longleftrightarrow> authenticated verify ios"
| "auth_history verify a ios \<longleftrightarrow> True"

lemma auth_ok_not_config: "auth_result r \<noteq> config_ok c" "hello_ack \<noteq> config_ok c"
  "auth_challenge n \<noteq> config_ok c" "config_reject r \<noteq> config_ok c" "tx_result q t \<noteq> config_ok c"
  "rx_packet p \<noteq> config_ok c" "ping \<noteq> config_ok c"
  by (simp_all add: server_frame_defs mk_frame_def packConfig_def put32_def)

lemma server_step_auth:
  assumes "server_step True verify a i fs a'" and "auth_history verify a ios"
    and "\<forall>c. config_ok c \<in> set (outputs ios) \<longrightarrow> authenticated verify ios"
  shows "auth_history verify a' (ios @ [(i, fs)]) \<and>
     (\<forall>c. config_ok c \<in> set (outputs (ios @ [(i, fs)])) \<longrightarrow> authenticated verify (ios @ [(i, fs)]))"
proof -
  have hist: "auth_history verify a (ios @ [(i, fs)])"
    using assms(2) by (cases "(verify, a, ios)" rule: auth_history.cases)
      (auto intro: authenticated_snoc)
  note old = assms(3) authenticated_snoc [of verify ios "(i, fs)"]
  show ?thesis
    using assms(1)
  proof cases
    case (auth f n)
    then have "authenticated verify (ios @ [(i, fs)])"
      using assms(2) by (auto simp: authenticated_def)
    with auth old show ?thesis by auto
  next
    case (close_config r c)
    with old show ?thesis by (auto simp: auth_ok_not_config [symmetric])
  qed (use hist old in \<open>auto simp: auth_ok_not_config [symmetric]\<close>)
qed

lemma server_run_auth:
  "server_run True verify SHello ios a \<Longrightarrow> auth_history verify a ios \<and>
     (\<forall>c. config_ok c \<in> set (outputs ios) \<longrightarrow> authenticated verify ios)"
proof (induction rule: server_run.induct)
  case nil
  show ?case by simp
next
  case (snoc ios a i fs a')
  then show ?case using server_step_auth [of verify a i fs a' ios] by blast
qed

end
