(* ===== verification/Xr_End_To_End.thy ===== *)
theory Xr_End_To_End
  imports Xr_Client_Session Xr_Server_Spec
begin

text \<open>
  A firmware session and the abstract server joined by two FIFO channels of frames.  The
  server is the machine every connection of the bridge refines (\<open>Xr_Link\<close>); the firmware
  transport sends what the events of its session ask for.  Frames may be arbitrarily delayed,
  so each side acts on a state of the other that may be long past.

  The result: the two state machines fit.  The firmware session never meets a frame that it
  must refuse; it degrades only because the authentication failed, the configuration was not
  applied, or its own transport reported a timeout.
\<close>

subsection \<open>The composed system\<close>

text \<open>What the transport sends for an event (\<open>external_radio_protocol.h\<close>, \<^verbatim>\<open>enum Event\<close>);
  \<open>respond\<close> computes the 32-byte answer to a nonce.\<close>

fun client_reply :: "(byte list \<Rightarrow> byte list) \<Rightarrow> CEvent \<Rightarrow> Session \<Rightarrow> Frame list" where
  "client_reply respond EV_SEND_HELLO s = [mk_frame MSG_HELLO 0 [kVersion]]"
| "client_reply respond EV_SEND_AUTH s = [mk_frame MSG_AUTH_RESPONSE 0 (respond (cs_nonce s))]"
| "client_reply respond EV_SEND_CONFIG s = [mk_frame MSG_CONFIGURE 0 (packConfig (cs_cfg s))]"
| "client_reply respond EV_SEND_PONG s = [mk_frame MSG_PONG 0 []]"
| "client_reply respond ev s = []"

type_synonym system = "Session \<times> Frame list \<times> Frame list \<times> server_state"

inductive system_run ::
  "bool \<Rightarrow> (byte list \<Rightarrow> Frame \<Rightarrow> bool) \<Rightarrow> (byte list \<Rightarrow> byte list) \<Rightarrow> RadioConfig \<Rightarrow> system \<Rightarrow> bool"
  for pw :: bool and verify :: "byte list \<Rightarrow> Frame \<Rightarrow> bool" and respond :: "byte list \<Rightarrow> byte list"
    and cfg :: RadioConfig where
  connect: "setDesiredConfig cfg (reset s0) = (True, s1) \<Longrightarrow>
     onConnected (snd (onConnecting s1)) = (ev, s2) \<Longrightarrow>
     system_run pw verify respond cfg (s2, client_reply respond ev s2, [], SHello)"
| client_frame: "system_run pw verify respond cfg (s, up, f # down, a) \<Longrightarrow>
     cs_state s \<noteq> ST_DEGRADED \<Longrightarrow> onFrame f s = (ev, s') \<Longrightarrow>
     system_run pw verify respond cfg (s', up @ client_reply respond ev s', down, a)"
| client_submit: "system_run pw verify respond cfg (s, up, down, a) \<Longrightarrow>
     submitTx s = (Some q, s') \<Longrightarrow> length d \<le> 255 \<Longrightarrow>
     system_run pw verify respond cfg (s', up @ [mk_frame MSG_TX_REQUEST q d], down, a)"
| client_timeout: "system_run pw verify respond cfg (s, up, down, a) \<Longrightarrow>
     onTimeout k s = (ev, s') \<Longrightarrow> system_run pw verify respond cfg (s', up, down, a)"
| server_frame: "system_run pw verify respond cfg (s, f # up, down, a) \<Longrightarrow>
     server_step pw verify a (InFrame f) fs a' \<Longrightarrow>
     system_run pw verify respond cfg (s, up, down @ fs, a')"
| server_event: "system_run pw verify respond cfg (s, up, down, a) \<Longrightarrow>
     i = InTick \<or> i = InEvent e \<Longrightarrow> server_step pw verify a i fs a' \<Longrightarrow>
     system_run pw verify respond cfg (s, up, down @ fs, a')"

subsection \<open>What the firmware can take\<close>

datatype client_view = KHello | KAuth | KConf | KReady "u16 option" | KEnd

fun view_of :: "CState \<Rightarrow> u16 \<Rightarrow> client_view" where
  "view_of ST_HANDSHAKE q = KHello"
| "view_of ST_AUTHENTICATING q = KAuth"
| "view_of ST_CONFIGURING q = KConf"
| "view_of ST_READY_RX q = KReady None"
| "view_of ST_TX_PENDING q = KReady (Some q)"
| "view_of _ q = KEnd"

definition cview :: "Session \<Rightarrow> client_view" where
  "cview s = view_of (cs_state s) (cs_tx_seq s)"

text \<open>The frames that are legal in each view, and the view after them.\<close>

inductive takes :: "RadioConfig \<Rightarrow> client_view \<Rightarrow> Frame \<Rightarrow> client_view \<Rightarrow> bool" for cfg :: RadioConfig where
  "takes cfg KHello hello_ack KAuth"
| "length n = 16 \<Longrightarrow> takes cfg KAuth (auth_challenge n) KAuth"
| "takes cfg KAuth (auth_result AUTH_OK) KConf"
| "takes cfg KAuth (auth_result AUTH_FAIL) KEnd"
| "takes cfg KConf (config_ok cfg) (KReady None)"
| "r \<noteq> CFG_OK \<Longrightarrow> takes cfg KConf (config_reject r) KEnd"
| "rxPayloadAcceptable (rx_event_len p) \<Longrightarrow> rx_wf p \<Longrightarrow> takes cfg (KReady t) (rx_packet p) (KReady t)"
| "takes cfg (KReady t) ping (KReady t)"
| "q \<noteq> 0 \<Longrightarrow> takes cfg (KReady (Some q)) (tx_result q r) (KReady None)"

inductive takes_all :: "RadioConfig \<Rightarrow> client_view \<Rightarrow> Frame list \<Rightarrow> client_view \<Rightarrow> bool" for cfg :: RadioConfig where
  nil: "takes_all cfg k [] k"
| cons: "takes cfg k f k' \<Longrightarrow> takes_all cfg k' fs k'' \<Longrightarrow> takes_all cfg k (f # fs) k''"

inductive_cases takes_all_consE: "takes_all cfg k (f # fs) k''"
inductive_simps takes_all_Nil [simp]: "takes_all cfg k [] k'"

lemma takes_all_append:
  "takes_all cfg k fs k' \<Longrightarrow> takes_all cfg k' gs k'' \<Longrightarrow> takes_all cfg k (fs @ gs) k''"
  by (induction rule: takes_all.induct) (auto intro: takes_all.cons)

text \<open>Starting a transmission while packets and keepalives are on their way changes nothing.\<close>

lemma takes_all_submit:
  "takes_all cfg (KReady None) fs k \<Longrightarrow> k = KReady None \<and> takes_all cfg (KReady (Some q)) fs (KReady (Some q))"
proof (induction "KReady None" fs k rule: takes_all.induct)
  case (cons f k' fs k'')
  from cons(1) show ?case
    using cons(3) by cases (auto intro: takes_all.cons takes.intros)
qed auto


subsection \<open>The firmware session takes them\<close>

definition client_ok :: "RadioConfig \<Rightarrow> Session \<Rightarrow> bool" where
  "client_ok cfg s \<longleftrightarrow> client_inv s \<and> have_cfg s \<and> cs_cfg s = cfg \<and>
     cs_state s \<noteq> ST_DISCONNECTED \<and> cs_state s \<noteq> ST_CONNECTING \<and>
     (cs_state s = ST_DEGRADED \<longrightarrow> last_err s \<in> {ERR_AUTH, ERR_CONFIG, ERR_TIMEOUT})"

lemma client_ok_fail:
  "client_ok cfg s \<Longrightarrow> r \<in> {ERR_AUTH, ERR_CONFIG, ERR_TIMEOUT} \<Longrightarrow> client_ok cfg (snd (fail r s)) \<and>
     cview (snd (fail r s)) = KEnd \<and> fst (fail r s) = EV_NEED_DISCONNECT"
  using client_inv_fail [of s r] by (auto simp: client_ok_def fail_def cview_def Let_def)

lemma view_of_cases:
  "view_of st q = KHello \<longleftrightarrow> st = ST_HANDSHAKE" "view_of st q = KAuth \<longleftrightarrow> st = ST_AUTHENTICATING"
  "view_of st q = KConf \<longleftrightarrow> st = ST_CONFIGURING"
  "view_of st q = KReady t \<longleftrightarrow> st = ST_READY_RX \<and> t = None \<or> st = ST_TX_PENDING \<and> t = Some q"
  by (cases st; auto)+

lemma decodeConfigEcho_ok:
  "radioConfigValid c \<Longrightarrow> decodeConfigEcho (config_ok c) = Some c"
  using unpack_packConfig [of c "[]"] by (simp add: decodeConfigEcho_def config_ok_def)

lemma decodeRxPacket_ok:
  assumes "rxPayloadAcceptable (rx_event_len p)" and "rx_wf p"
  shows "\<exists>r. decodeRxPacket (rx_packet p) = Some r"
proof -
  let ?f = "rx_packet p"
  have "validate ?f = ERR_NONE" using server_frame_rx [OF assms] by (simp add: server_frame_def)
  then show ?thesis
    by (auto simp: validate_def decodeRxPacket_def rx_packet_def isKnownType_def Let_def split: if_splits)
qed

lemma takes_valid:
  assumes "takes cfg k f k'" and "radioConfigValid cfg"
  shows "validate f = ERR_NONE"
proof -
  have "server_frame f"
    using assms by cases (auto intro: server_frame_config_ok server_frame_rx server_frame_tx_result)
  then show ?thesis by (simp add: server_frame_def)
qed

lemma frame_fields [simp]:
  "ftype hello_ack = 2" "ftype (auth_challenge n) = 3" "ftype (auth_result r) = 5"
  "ftype (config_ok c) = 7" "ftype (config_reject r) = 7" "ftype (rx_packet p) = 8"
  "ftype ping = 11" "ftype (tx_result q t) = 10" "fseq (tx_result q t) = q"
  "fpayload (auth_result r) = [r]" "flen (config_ok c) = 18" "flen (config_reject r) = 1"
  by (simp_all add: server_frame_defs)

lemma client_takes:
  assumes t: "takes cfg (cview s) f k" and ok: "client_ok cfg s"
    and step: "onFrame f s = (ev, s')"
  shows "client_ok cfg s' \<and> cview s' = k"
proof -
  have inv: "client_inv s" and cfg: "have_cfg s" "cs_cfg s = cfg" and val: "radioConfigValid cfg"
    using ok by (auto simp: client_ok_def client_inv_def)
  have inv': "client_inv s'" using client_inv_frame [OF inv, of f] step by simp
  have F: "client_ok cfg s' \<and> cview s' = KEnd"
    if "r \<in> {ERR_AUTH, ERR_CONFIG, ERR_TIMEOUT}" "fail r s = (ev, s')" for r
    using client_ok_fail [OF ok that(1)] that(2) by simp
  note step' = step [unfolded onFrame_def takes_valid [OF t val] Let_def]
  note unf = cview_def view_of_cases
  from t show ?thesis
  proof cases
    case 5
    then show ?thesis
      using step' inv' ok cfg decodeConfigEcho_ok [OF val] by (auto simp: unf client_ok_def)
  next
    case (7 p t)
    obtain r where "decodeRxPacket f = Some r" using decodeRxPacket_ok 7 by blast
    with 7 show ?thesis
      using step' inv' ok by (auto simp: unf client_ok_def on_rx_packet_def)
  qed (use step' inv' ok F [of ERR_AUTH] F [of ERR_CONFIG] in \<open>auto simp: unf client_ok_def\<close>)
qed


subsection \<open>The two sides fit\<close>

text \<open>The sequence numbers of the requests on their way to the server.\<close>

definition pending_requests :: "Frame list \<Rightarrow> u16 list" where
  "pending_requests up = map fseq (filter (\<lambda>f. ftype f = MSG_TX_REQUEST) up)"

lemma pending_requests_simps [simp]:
  "pending_requests [] = []" "pending_requests (up @ up') = pending_requests up @ pending_requests up'"
  "pending_requests (f # up) = (if ftype f = MSG_TX_REQUEST then [fseq f] else []) @ pending_requests up"
  by (simp_all add: pending_requests_def)

text \<open>The view the firmware will have once it has taken every frame on its way, against the
  state of the server and the requests on their way.\<close>

definition peers :: "RadioConfig \<Rightarrow> client_view \<Rightarrow> server_state \<Rightarrow> u16 list \<Rightarrow> bool" where
  "peers cfg k a rq \<longleftrightarrow>
     (case a of
        SHello \<Rightarrow> k = KHello \<and> rq = []
      | SAuth n \<Rightarrow> k = KAuth \<and> rq = []
      | SConfigure \<Rightarrow> k = KConf \<and> rq = []
      | SConfiguring c \<Rightarrow> k = KConf \<and> c = cfg \<and> rq = []
      | SReady None \<Rightarrow> (k = KReady None \<and> rq = []) \<or> (\<exists>q. k = KReady (Some q) \<and> rq = [q])
      | SReady (Some q) \<Rightarrow> k = KReady (Some q) \<and> rq = []
      | SClosed \<Rightarrow> True)"

lemma peers_simps [simp]:
  "peers cfg k SHello rq \<longleftrightarrow> k = KHello \<and> rq = []" "peers cfg k (SAuth n) rq \<longleftrightarrow> k = KAuth \<and> rq = []"
  "peers cfg k SConfigure rq \<longleftrightarrow> k = KConf \<and> rq = []"
  "peers cfg k (SConfiguring c) rq \<longleftrightarrow> k = KConf \<and> c = cfg \<and> rq = []"
  "peers cfg k (SReady (Some q)) rq \<longleftrightarrow> k = KReady (Some q) \<and> rq = []"
  "peers cfg k (SReady None) rq \<longleftrightarrow>
     (k = KReady None \<and> rq = []) \<or> (\<exists>q. k = KReady (Some q) \<and> rq = [q])"
  "peers cfg k SClosed rq"
  by (simp_all add: peers_def)

lemma takes_one: "takes cfg k f k' \<Longrightarrow> takes_all cfg k [f] k'"
  by (auto intro: takes_all.intros)

lemma takes_two: "takes cfg k f k' \<Longrightarrow> takes cfg k' g k'' \<Longrightarrow> takes_all cfg k [f, g] k''"
  by (auto intro: takes_all.intros)

lemma peers_step:
  assumes "server_step pw verify a i fs a'" and "peers cfg k a rq"
    and "rq = (case i of InFrame f \<Rightarrow> if ftype f = MSG_TX_REQUEST then [fseq f] else [] | _ \<Rightarrow> []) @ rq'"
    and "\<And>f c. i = InFrame f \<Longrightarrow> decodeConfig f = Some c \<Longrightarrow> c = cfg"
  shows "\<exists>k'. takes_all cfg k fs k' \<and> peers cfg k' a' rq'"
  using assms(1)
proof cases
  case (hello_open f)
  then have "takes_all cfg KHello fs KConf"
    using takes_two [OF takes.intros(1,3)] by simp
  with hello_open assms(2,3) show ?thesis by auto
next
  case (hello_auth f n)
  then have "takes_all cfg KHello fs KAuth" by (auto intro: takes_two takes.intros)
  with hello_auth assms(2,3) show ?thesis by auto
next
  case (auth f n)
  then have "takes_all cfg KAuth fs KConf" using takes_one [OF takes.intros(3)] by simp
  with auth assms(2,3) show ?thesis by auto
next
  case (configured r c t)
  then have "c = cfg" "k = KConf" "rq' = []" using assms(2,3) by auto
  with configured have "takes_all cfg k fs (KReady None)" by (auto intro: takes_one takes.intros)
  with configured \<open>rq' = []\<close> show ?thesis by auto
next
  case (result q r)
  then have "takes_all cfg (KReady (Some q)) fs (KReady None)" by (auto intro: takes_one takes.intros)
  with result assms(2,3) show ?thesis by auto
next
  case (rx p t)
  then have "takes_all cfg (KReady t') fs (KReady t')" for t' by (auto intro: takes_one takes.intros)
  with rx assms(2,3) show ?thesis by (cases t) auto
next
  case (ping t)
  then have "takes_all cfg (KReady t') fs (KReady t')" for t' by (auto intro: takes_one takes.intros)
  with ping assms(2,3) show ?thesis by (cases t) auto
next
  case close_hello
  then have "takes_all cfg KHello fs KAuth" by (auto intro: takes_one takes.intros)
  with close_hello assms(2) show ?thesis by auto
next
  case (close_auth n f)
  then have "takes_all cfg KAuth fs KEnd" using takes_one [OF takes.intros(4)] by simp
  with close_auth assms(2) show ?thesis by auto
next
  case (close_config r c)
  then have "takes_all cfg KConf fs KEnd" using takes_one [OF takes.intros(6)] by auto
  with close_config assms(2) show ?thesis by auto
qed (use assms(2-4) decodeConfig_type in \<open>auto split: server_input.splits\<close>)

definition system_inv :: "RadioConfig \<Rightarrow> system \<Rightarrow> bool" where
  "system_inv cfg sys \<longleftrightarrow> (case sys of (s, up, down, a) \<Rightarrow>
     client_ok cfg s \<and> (\<forall>f \<in> set up. \<forall>c. decodeConfig f = Some c \<longrightarrow> c = cfg) \<and>
     (cs_state s \<noteq> ST_DEGRADED \<longrightarrow>
        (\<exists>k. takes_all cfg (cview s) down k \<and> peers cfg k a (pending_requests up))))"


lemma system_inv_frame:
  assumes "system_inv cfg (s, up, f # down, a)" and "cs_state s \<noteq> ST_DEGRADED" and "onFrame f s = (ev, s')"
  shows "system_inv cfg (s', up @ client_reply respond ev s', down, a)"
proof -
  from assms obtain k where ok: "client_ok cfg s" and "takes_all cfg (cview s) (f # down) k"
    and p: "peers cfg k a (pending_requests up)"
    and up: "\<forall>f \<in> set up. \<forall>c. decodeConfig f = Some c \<longrightarrow> c = cfg"
    by (auto simp: system_inv_def)
  then obtain k1 where t: "takes cfg (cview s) f k1" and r: "takes_all cfg k1 down k"
    by (auto elim: takes_all_consE)
  have s': "client_ok cfg s'" "cview s' = k1" using client_takes [OF t ok assms(3)] by auto
  have "radioConfigValid cfg" using s'(1) by (auto simp: client_ok_def client_inv_def)
  then have cfg: "decodeConfig (mk_frame MSG_CONFIGURE 0 (packConfig (cs_cfg s'))) = Some cfg"
    using unpack_packConfig [of cfg "[]"] s'(1) by (simp add: decodeConfig_def client_ok_def)
  have "\<forall>f \<in> set (client_reply respond ev s'). ftype f \<noteq> MSG_TX_REQUEST \<and>
      (\<forall>c. decodeConfig f = Some c \<longrightarrow> c = cfg)"
    using cfg by (cases ev) (auto simp: decodeConfig_def)
  then have "pending_requests (client_reply respond ev s') = []"
    "\<forall>f \<in> set (client_reply respond ev s'). \<forall>c. decodeConfig f = Some c \<longrightarrow> c = cfg"
    by (auto simp: pending_requests_def)
  with s' r p up show ?thesis by (auto simp: system_inv_def)
qed

lemma submitTx_Some:
  assumes "submitTx s = (Some q, s')"
  shows "cs_state s = ST_READY_RX" "cs_state s' = ST_TX_PENDING" "cs_tx_seq s' = q"
    "cs_cfg s' = cs_cfg s" "have_cfg s' = have_cfg s"
  using assms by (auto simp: submitTx_def canSubmitTx_def Let_def split: if_splits)

lemma system_inv_submit:
  assumes "system_inv cfg (s, up, down, a)" and "submitTx s = (Some q, s')"
  shows "system_inv cfg (s', up @ [mk_frame MSG_TX_REQUEST q d], down, a)"
proof -
  note sub = submitTx_Some [OF assms(2)]
  from assms(1) sub obtain k where ok: "client_ok cfg s" and t: "takes_all cfg (KReady None) down k"
    and p: "peers cfg k a (pending_requests up)"
    and up: "\<forall>f \<in> set up. \<forall>c. decodeConfig f = Some c \<longrightarrow> c = cfg"
    by (auto simp: system_inv_def cview_def)
  have k: "k = KReady None" "takes_all cfg (KReady (Some q)) down (KReady (Some q))"
    using takes_all_submit [OF t] by auto
  have "client_inv s'" using client_inv_submit [of s] assms(2) ok by (simp add: client_ok_def)
  then have ok': "client_ok cfg s'" using ok sub by (simp add: client_ok_def)
  have "peers cfg (KReady (Some q)) a (pending_requests up @ [q])"
    using p k(1) by (cases a) (auto simp: peers_def split: option.splits)
  with ok' up k(2) sub show ?thesis
    by (auto simp: system_inv_def cview_def decodeConfig_def)
qed

lemma system_inv_timeout:
  assumes "system_inv cfg (s, up, down, a)" and "onTimeout k s = (ev, s')"
  shows "system_inv cfg (s', up, down, a)"
proof (cases "s' = s")
  case False
  then have "s' = snd (fail ERR_TIMEOUT s)"
    using assms(2) by (auto simp: onTimeout_def split: TimeoutKind.splits if_splits)
  with assms(1) client_ok_fail [of cfg s ERR_TIMEOUT] show ?thesis
    by (auto simp: system_inv_def fail_def Let_def)
qed (use assms in simp)

lemma system_inv_server:
  assumes inv: "system_inv cfg (s, pre @ up, down, a)"
    and step: "server_step pw verify a i fs a'"
    and pre: "(\<exists>f. i = InFrame f \<and> pre = [f]) \<or> ((i = InTick \<or> i = InEvent e) \<and> pre = [])"
  shows "system_inv cfg (s, up, down @ fs, a')"
proof (cases "cs_state s = ST_DEGRADED")
  case False
  with inv obtain k where t: "takes_all cfg (cview s) down k"
    and p: "peers cfg k a (pending_requests (pre @ up))"
    by (auto simp: system_inv_def)
  have rq: "pending_requests (pre @ up) = (case i of InFrame f \<Rightarrow>
      if ftype f = MSG_TX_REQUEST then [fseq f] else [] | _ \<Rightarrow> []) @ pending_requests up"
    using pre by auto
  have cfg: "\<And>f c. i = InFrame f \<Longrightarrow> decodeConfig f = Some c \<Longrightarrow> c = cfg"
    using inv pre by (auto simp: system_inv_def)
  from peers_step [OF step p rq cfg] takes_all_append [OF t] inv show ?thesis
    by (fastforce simp: system_inv_def)
qed (use inv in \<open>auto simp: system_inv_def\<close>)

lemma system_run_inv:
  "system_run pw verify respond cfg sys \<Longrightarrow> system_inv cfg sys"
proof (induction rule: system_run.induct)
  case (connect s0 s1 ev s2)
  then have "client_inv s1" using client_inv_connect(1) [OF client_inv_reset, of cfg s0] by simp
  then have inv: "client_inv s2"
    using client_inv_connect(3) [OF client_inv_connect(2)] connect(2) by (metis snd_conv)
  have "s1 = (reset s0)\<lparr>cs_cfg := cfg, have_cfg := True\<rparr>"
    using connect(1) by (simp add: setDesiredConfig_def split: if_splits)
  then have "cs_state s1 = ST_DISCONNECTED" "cs_cfg s1 = cfg" "have_cfg s1"
    by (simp_all add: reset_def clearVolatile_def)
  with connect(2) have "ev = EV_SEND_HELLO" "cs_state s2 = ST_HANDSHAKE" "cs_cfg s2 = cfg" "have_cfg s2"
    by (auto simp: onConnecting_def onConnected_def clearVolatile_def)
  with inv show ?case
    by (simp add: system_inv_def client_ok_def cview_def decodeConfig_def)
next
  case (client_frame s up f down a ev s')
  then show ?case by (blast intro: system_inv_frame)
next
  case (client_submit s up down a q s' d)
  then show ?case by (blast intro: system_inv_submit)
next
  case (client_timeout s up down a k ev s')
  from client_timeout(3,2) show ?case by (rule system_inv_timeout)
next
  case (server_frame s f up down a fs a')
  then show ?case using system_inv_server [of cfg s "[f]" up down a pw verify "InFrame f" fs a'] by simp
next
  case (server_event s up down a i e fs a')
  then show ?case using system_inv_server [of cfg s "[]" up down a pw verify i fs a' e] by simp
qed

end
