(* ===== verification/Xr_Session_Refine.thy ===== *)
theory Xr_Session_Refine
  imports Xr_Server_Spec
begin

text \<open>
  The session of the sources refines the abstract server: each handler is a step of the
  machine of \<open>Xr_Server_Spec\<close> with the frames it appends to the output queue as the label.
\<close>

fun abs_phase :: "Phase \<Rightarrow> byte list \<Rightarrow> RadioConfig \<Rightarrow> bool \<Rightarrow> u16 \<Rightarrow> server_state" where
  "abs_phase WaitHello n c t q = SHello"
| "abs_phase WaitAuth n c t q = SAuth n"
| "abs_phase WaitConfigure n c t q = SConfigure"
| "abs_phase Configuring n c t q = SConfiguring c"
| "abs_phase Ready n c t q = SReady (if t then Some q else None)"
| "abs_phase Closed n c t q = SClosed"

definition abs_sess :: "XrSession \<Rightarrow> server_state" where
  "abs_sess s = abs_phase (phase s) (nonce s) (requested_cfg s) (tx_in_flight s) (tx_seq s)"

text \<open>The frames \<open>fs\<close> were appended to the output queue between \<open>s\<close> and \<open>s'\<close>.\<close>

definition emitted :: "XrSession \<Rightarrow> Frame list \<Rightarrow> XrSession \<Rightarrow> bool" where
  "emitted s fs s' \<longleftrightarrow>
     bb_data (outbox s') = bb_data (outbox s) @ concat (map frame_bytes fs)"

definition sess_verify :: "openssl \<Rightarrow> AuthConfig \<Rightarrow> byte list \<Rightarrow> Frame \<Rightarrow> bool" where
  "sess_verify ssl a n f \<longleftrightarrow> verify_auth_response ssl a n (Some (fpayload f)) (unat (flen f))"

abbreviation sess_step ::
  "openssl \<Rightarrow> AuthConfig \<Rightarrow> server_state \<Rightarrow> server_input \<Rightarrow> Frame list \<Rightarrow> server_state \<Rightarrow> bool" where
  "sess_step ssl a \<equiv> server_step (password_configured a) (sess_verify ssl a)"

definition refines ::
  "openssl \<Rightarrow> server_input \<Rightarrow> XrSession \<Rightarrow> XrSession \<Rightarrow> bool" where
  "refines ssl i s s' \<longleftrightarrow> auth s' = auth s \<and>
     (\<exists>fs. emitted s fs s' \<and> sess_step ssl (auth s) (abs_sess s) i fs (abs_sess s'))"

lemma emitted_same [simp]: "outbox s' = outbox s \<Longrightarrow> emitted s [] s'"
  by (simp add: emitted_def)

lemma abs_sess_close [simp]: "abs_sess (close r s) = SClosed"
  by (simp add: abs_sess_def)

lemma refines_close [intro]: "refines ssl i s (close r s)"
  unfolding refines_def
  by (auto intro!: exI [of _ "[]"] server_step.close)

text \<open>Emission of one frame: it reaches the queue, or the session closes silently.\<close>

lemma emit_oneE:
  assumes "sess_inv s" and "encode (Some kMaxFrame) ty seq pl len = Some (frame_bytes g)"
  obtains (sent) ob where "emit ty seq pl len s = (True, s\<lparr>outbox := ob\<rparr>)"
      "bb_data ob = bb_data (outbox s) @ frame_bytes g" "bb_invar ob"
    | (overflow) "emit ty seq pl len s = (False, close OutputOverflow s)"
  by (rule emit_frame [OF sess_invD(1) [OF assms(1)] assms(2)]) (auto intro: that)

lemma encode_one:
  "encode (Some kMaxFrame) ty seq (Some [x]) 1 = Some (frame_bytes (mk_frame ty seq [x]))"
  by (rule encode_mk_frame) simp_all

lemma refines_emit:
  assumes inv: "sess_inv s"
    and enc: "encode (Some kMaxFrame) ty seq pl len = Some (frame_bytes g)"
    and step: "\<And>ob. sess_step ssl (auth s) (abs_sess s) i [g] (abs_sess (k (s\<lparr>outbox := ob\<rparr>)))"
    and keep: "\<And>s. outbox (k s) = outbox s" "\<And>s. auth (k s) = auth s"
    and same: "k (close OutputOverflow s) = close OutputOverflow s"
  shows "refines ssl i s (k (snd (emit ty seq pl len s)))"
proof -
  from inv enc show ?thesis
  proof (cases rule: emit_oneE)
    case (sent ob)
    then show ?thesis using step [of ob] keep
      by (auto simp: refines_def emitted_def intro!: exI [of _ "[g]"])
  next
    case overflow
    then show ?thesis using same by (simp add: refines_close)
  qed
qed

lemma refines_emit_close:
  assumes inv: "sess_inv s"
    and enc: "encode (Some kMaxFrame) ty seq pl len = Some (frame_bytes g)"
    and step: "sess_step ssl (auth s) (abs_sess s) i [g] SClosed"
  shows "refines ssl i s (close r (snd (emit ty seq pl len s)))"
  using refines_emit [of s ty seq pl len g ssl i "close r", OF inv enc] step by simp

text \<open>The acknowledgement is out: the challenge or the result follows, or the session closes.\<close>

lemma refines_hello_challenge:
  assumes inv: "sess_inv s" and ph: "phase s = WaitHello" and pw: "password_configured (auth s)"
    and hello: "ftype f = MSG_HELLO" and n: "random_nonce ssl = Some n" "length n = 16"
    and sent: "emit MSG_HELLO_ACK 0 (Some [kVersion]) 1 s = (True, s\<lparr>outbox := ob\<rparr>)"
      "bb_data ob = bb_data (outbox s) @ frame_bytes hello_ack" "bb_invar ob"
    and half: "\<And>r n. refines ssl (InFrame f) s (close r (s\<lparr>outbox := ob, nonce := n\<rparr>))"
  shows "refines ssl (InFrame f) s (handle_hello ssl now f s)"
proof -
  have "sess_inv (s\<lparr>outbox := ob, nonce := n\<rparr>)" using inv sent(3) by (auto simp: sess_inv_def)
  moreover have "encode (Some kMaxFrame) MSG_AUTH_CHALLENGE 0 (Some n) kAuthNonceSize =
      Some (frame_bytes (auth_challenge n))"
    unfolding auth_challenge_def using n(2) by (intro encode_mk_frame) simp_all
  ultimately show ?thesis
  proof (cases rule: emit_oneE)
    case s2: (sent ob')
    with sent(1,2) pw hello n show ?thesis
      by (auto simp: refines_def emitted_def handle_hello_def Let_def arm_def abs_sess_def ph
          intro!: exI [of _ "[hello_ack, auth_challenge n]"] server_step.hello_auth)
  next
    case overflow
    with hello sent(1) pw n(1) half show ?thesis by (simp add: handle_hello_def Let_def)
  qed
qed

lemma refines_hello_open:
  assumes inv: "sess_inv s" and ph: "phase s = WaitHello" and pw: "\<not> password_configured (auth s)"
    and hello: "ftype f = MSG_HELLO"
    and sent: "emit MSG_HELLO_ACK 0 (Some [kVersion]) 1 s = (True, s\<lparr>outbox := ob\<rparr>)"
      "bb_data ob = bb_data (outbox s) @ frame_bytes hello_ack" "bb_invar ob"
    and half: "\<And>r. refines ssl (InFrame f) s (close r (s\<lparr>outbox := ob\<rparr>))"
  shows "refines ssl (InFrame f) s (handle_hello ssl now f s)"
proof -
  have "sess_inv (s\<lparr>outbox := ob\<rparr>)" using inv sent(3) by (auto simp: sess_inv_def)
  moreover have "encode (Some kMaxFrame) MSG_AUTH_RESULT 0 (Some [AUTH_OK]) 1 =
      Some (frame_bytes (auth_result AUTH_OK))"
    by (simp only: auth_result_def encode_one)
  ultimately show ?thesis
  proof (cases rule: emit_oneE)
    case s2: (sent ob')
    with sent(1,2) pw hello show ?thesis
      by (auto simp: refines_def emitted_def handle_hello_def Let_def arm_def abs_sess_def ph
          intro!: exI [of _ "[hello_ack, auth_result AUTH_OK]"] server_step.hello_open)
  next
    case overflow
    with hello sent(1) pw half show ?thesis by (simp add: handle_hello_def Let_def)
  qed
qed

lemma refines_hello:
  assumes inv: "sess_inv s" and ph: "phase s = WaitHello"
    and rnd: "\<And>r. RAND_bytes ssl = Some r \<Longrightarrow> length r = 16"
  shows "refines ssl (InFrame f) s (handle_hello ssl now f s)"
proof (cases "ftype f = MSG_HELLO")
  case True
  have "encode (Some kMaxFrame) MSG_HELLO_ACK 0 (Some [kVersion]) 1 = Some (frame_bytes hello_ack)"
    by (simp only: hello_ack_def encode_one)
  with inv show ?thesis
  proof (cases rule: emit_oneE)
    case (sent ob)
    have half: "refines ssl (InFrame f) s (close r (s\<lparr>outbox := ob, nonce := n\<rparr>))" for r n
      using sent ph by (auto simp: refines_def emitted_def abs_sess_def intro!: exI [of _ "[hello_ack]"]
          server_step.close_hello)
    have half': "refines ssl (InFrame f) s (close r (s\<lparr>outbox := ob\<rparr>))" for r
      using half [of r "nonce s"] by simp
    show ?thesis
    proof (cases "password_configured (auth s)")
      case pw: True
      show ?thesis
      proof (cases "random_nonce ssl")
        case None
        with True sent(1) pw half' show ?thesis by (simp add: handle_hello_def)
      next
        case (Some n)
        then have "length n = 16" using rnd by (simp add: random_nonce_def)
        with Some show ?thesis using refines_hello_challenge [OF inv ph pw True _ _ sent half] by blast
      qed
    qed (rule refines_hello_open [OF inv ph _ True sent half'])
  next
    case overflow
    with True show ?thesis by (simp add: handle_hello_def refines_close)
  qed
next
  case False
  then show ?thesis by (simp add: handle_hello_def refines_close)
qed

lemma refines_auth:
  assumes inv: "sess_inv s" and ph: "phase s = WaitAuth"
  shows "refines ssl (InFrame f) s (handle_auth ssl now f s)"
proof (cases "ftype f = MSG_AUTH_RESPONSE")
  case ty: True
  have a: "abs_sess s = SAuth (nonce s)" using ph by (simp add: abs_sess_def)
  have enc: "encode (Some kMaxFrame) MSG_AUTH_RESULT 0 (Some [x]) 1 = Some (frame_bytes (auth_result x))"
    for x by (simp only: auth_result_def encode_one)
  show ?thesis
  proof (cases "sess_verify ssl (auth s) (nonce s) f")
    case True
    from inv enc [of AUTH_OK] show ?thesis
    proof (cases rule: emit_oneE)
      case (sent ob)
      with True ty a show ?thesis
        by (auto simp: refines_def emitted_def handle_auth_def Let_def arm_def abs_sess_def ph
            sess_verify_def intro!: exI [of _ "[auth_result AUTH_OK]"] server_step.auth)
    next
      case overflow
      with True ty show ?thesis by (auto simp: handle_auth_def sess_verify_def)
    qed
  next
    case False
    then have "refines ssl (InFrame f) s
        (close AuthFailed (snd (emit MSG_AUTH_RESULT 0 (Some [AUTH_FAIL]) 1 s)))"
      unfolding a [symmetric]
      by (intro refines_emit_close [OF inv enc]) (simp add: a server_step.close_auth [simplified])
    with False ty show ?thesis by (simp add: handle_auth_def sess_verify_def)
  qed
next
  case False
  then show ?thesis by (simp add: handle_auth_def refines_close)
qed

lemma refines_config_reject:
  assumes inv: "sess_inv s" and ph: "phase s = WaitConfigure \<or> phase s = Configuring" and r: "r \<noteq> CFG_OK"
  shows "refines ssl i s (close ConfigFailed (snd (emit MSG_CONFIG_RESULT 0 (Some [r]) 1 s)))"
proof (rule refines_emit_close [OF inv])
  show "encode (Some kMaxFrame) MSG_CONFIG_RESULT 0 (Some [r]) 1 = Some (frame_bytes (config_reject r))"
    by (simp only: config_reject_def encode_one)
  show "sess_step ssl (auth s) (abs_sess s) i [config_reject r] SClosed"
    using ph r by (auto simp: abs_sess_def intro!: server_step.close_config)
qed

lemma refines_configure:
  assumes inv: "sess_inv s" and ph: "phase s = WaitConfigure"
  shows "refines ssl (InFrame f) s (fst (handle_configure B now f (s, b)))"
proof -
  note fail = refines_config_reject [OF inv, of _ ssl "InFrame f"]
  have step: "refines ssl (InFrame f) s (arm now t ConfigTimeout
      (s\<lparr>config_op_token := k, requested_cfg := c, phase := Configuring\<rparr>))"
    if "decodeConfig f = Some c" for c k t
    using that ph
    by (auto simp: refines_def arm_def abs_sess_def emitted_def intro!: exI [of _ "[]"]
        server_step.configure)
  show ?thesis
    using fail [of CFG_INVALID] fail [of CFG_UNSUPPORTED] ph step
    by (auto simp: handle_configure_def Let_def split_beta split: option.splits if_splits)
qed

lemma refines_ready_frame:
  assumes inv: "sess_inv s" and ph: "phase s = Ready" and ok: "validate f = ERR_NONE"
  shows "refines ssl (InFrame f) s (fst (handle_ready_frame B now f (s, b)))"
proof -
  have seq: "ftype f = MSG_TX_REQUEST \<Longrightarrow> fseq f \<noteq> 0"
    using ok by (auto simp: validate_def Let_def split: if_splits)
  have tx: "refines ssl (InFrame f) s (s\<lparr>tx_seq := fseq f, tx_in_flight := True, tx_deadline_at := d\<rparr>)"
    if "\<not> tx_in_flight s" "ftype f = MSG_TX_REQUEST" for d
    using that ph seq
    by (auto simp: refines_def abs_sess_def emitted_def intro!: exI [of _ "[]"] server_step.request)
  have drop: "refines ssl (InFrame f) s (close r (s\<lparr>tx_seq := q\<rparr>))" for r q
    by (auto simp: refines_def emitted_def intro!: exI [of _ "[]"] server_step.close)
  have pong: "refines ssl (InFrame f) s s'"
    if "ftype f = MSG_PONG" "abs_sess s' = abs_sess s" "outbox s' = outbox s" "auth s' = auth s" for s'
    using that ph
    by (auto simp: refines_def emitted_def abs_sess_def intro!: exI [of _ "[]"] server_step.pong)
  show ?thesis
  proof (cases "ftype f = MSG_PONG \<and> awaiting_pong s")
    case True
    then show ?thesis
      by (intro pong) (simp_all add: handle_ready_frame_def Let_def abs_sess_def)
  next
    case False
    with tx drop show ?thesis
      by (auto simp: handle_ready_frame_def Let_def split_beta)
  qed
qed

lemma refines_handle_frame:
  assumes "sess_inv s" and "phase s \<noteq> Closed"
    and "\<And>r. RAND_bytes ssl = Some r \<Longrightarrow> length r = 16"
  shows "refines ssl (InFrame f) s (fst (handle_frame B ssl now f (s, b)))"
  using assms
  by (auto simp: handle_frame_def intro: refines_hello refines_auth refines_configure
      refines_ready_frame split: Phase.split)

subsection \<open>Backend events and time\<close>

lemma refines_same: "i = InTick \<or> i = InEvent e \<Longrightarrow> refines ssl i s s"
  by (auto simp: refines_def intro!: exI [of _ "[]"] server_step.ignore)

lemma pack_config_packConfig: "pack_config = packConfig"
  by (simp add: fun_eq_iff pack_config_def packConfig_def)

lemma refines_on_configure_complete:
  assumes inv: "sess_inv s"
  shows "refines ssl (InEvent (OnConfigureComplete t res)) s (on_configure_complete now t res s)"
proof (cases "phase s = Configuring \<and> t = config_op_token s")
  case True
  note ph = True [THEN conjunct1]
  show ?thesis
  proof (cases "applied res \<and> effective res = requested_cfg s")
    case ok: True
    let ?c = "effective res" and ?s = "s\<lparr>applied_cfg := effective res\<rparr>"
    let ?body = "CFG_OK # pack_config ?c"
    have inv': "sess_inv ?s" using inv ph by (auto simp: sess_inv_def)
    have valid: "radioConfigValid ?c" using inv ph ok by (simp add: sess_inv_def)
    have enc: "encode (Some kMaxFrame) MSG_CONFIG_RESULT 0 (Some ?body) (of_nat (length ?body)) =
        Some (frame_bytes (config_ok ?c))"
      unfolding config_ok_def pack_config_packConfig by (rule encode_mk_frame) simp_all
    from inv' enc show ?thesis
    proof (cases rule: emit_oneE)
      case (sent ob)
      with True ok valid show ?thesis
        by (auto simp: refines_def emitted_def on_configure_complete_def Let_def enter_ready_def
            abs_sess_def sess_invD(3) [OF inv] intro!: exI [of _ "[config_ok ?c]"]
            server_step.configured dest: sess_invD(3) [OF inv])
    next
      case overflow
      with True ok show ?thesis
        by (auto simp: refines_def emitted_def on_configure_complete_def Let_def
            intro!: exI [of _ "[]"] server_step.close)
    qed
  next
    case False
    with True refines_config_reject [OF inv, of CFG_UNSUPPORTED] show ?thesis
      by (auto simp: on_configure_complete_def)
  qed
next
  case False
  then show ?thesis by (auto simp: on_configure_complete_def intro: refines_same)
qed

lemma refines_on_rx:
  assumes inv: "sess_inv s" and wf: "rx_wf rx"
  shows "refines ssl (InEvent (OnRx rx)) s (on_rx rx s)"
proof (cases "phase s = Ready \<and> rxPayloadAcceptable (rx_event_len rx)")
  case True
  let ?pl = "fpayload (rx_packet rx)"
  have le: "unat (rx_event_len rx) \<le> 255"
    using True by (simp add: rxPayloadAcceptable_def word_le_nat_alt)
  have len: "length ?pl = 6 + unat (rx_event_len rx)" by (rule length_rx_payload [OF wf])
  have "encode (Some kMaxFrame) MSG_RX_PACKET 0 (Some ?pl) (6 + rx_event_len rx) =
      Some (frame_bytes (mk_frame MSG_RX_PACKET 0 ?pl))"
    using le len by (intro encode_mk_frame) simp_all
  also have "mk_frame MSG_RX_PACKET 0 ?pl = rx_packet rx" by (simp add: rx_packet_def)
  finally have enc: "encode (Some kMaxFrame) MSG_RX_PACKET 0 (Some ?pl) (6 + rx_event_len rx) =
      Some (frame_bytes (rx_packet rx))" .
  have "refines ssl (InEvent (OnRx rx)) s (id (snd (emit MSG_RX_PACKET 0 (Some ?pl) (6 + rx_event_len rx) s)))"
    using True wf
    by (intro refines_emit [OF inv enc]) (auto simp: abs_sess_def intro: server_step.rx)
  with True show ?thesis by (simp add: on_rx_def Let_def rx_packet_def)
next
  case False
  then show ?thesis by (auto simp: on_rx_def intro: refines_same)
qed

lemma refines_on_tx_complete:
  assumes inv: "sess_inv s"
  shows "refines ssl (InEvent (OnTxComplete r)) s (on_tx_complete r s)"
proof (cases "tx_in_flight s")
  case True
  note tx = sess_invD(3,4) [OF inv True]
  have inv': "sess_inv (s\<lparr>tx_in_flight := False\<rparr>)" using inv by (auto simp: sess_inv_def)
  have enc: "encode (Some kMaxFrame) MSG_TX_RESULT (tx_seq s) (Some [tx_outcome_to_wire r]) 1 =
      Some (frame_bytes (tx_result (tx_seq s) r))"
    by (simp only: tx_result_def encode_one)
  from inv' enc show ?thesis
  proof (cases rule: emit_oneE)
    case (sent ob)
    with True tx show ?thesis
      by (auto simp: refines_def emitted_def on_tx_complete_def map_and_send_tx_result_def Let_def
          abs_sess_def intro!: exI [of _ "[tx_result (tx_seq s) r]"] server_step.result)
  next
    case overflow
    with True show ?thesis
      by (auto simp: refines_def emitted_def on_tx_complete_def map_and_send_tx_result_def Let_def
          intro!: exI [of _ "[]"] server_step.close)
  qed
next
  case False
  then show ?thesis by (auto simp: on_tx_complete_def intro: refines_same)
qed

lemma refines_on_event:
  assumes "sess_inv s" and "\<And>rx. e = OnRx rx \<Longrightarrow> rx_wf rx"
  shows "refines ssl (InEvent e) s (on_event now e s)"
  using assms
  by (cases e) (auto simp: on_backend_failure_def intro: refines_on_rx refines_on_tx_complete
      refines_on_configure_complete)

lemma refines_tick:
  assumes inv: "sess_inv s"
  shows "refines ssl InTick s (fst (tick B now (s, b)))"
proof -
  have enc: "encode (Some kMaxFrame) MSG_PING 0 None 0 = Some (frame_bytes ping)"
    by (simp add: encode_def ping_def mk_frame_def frame_bytes_def)
  have same: "refines ssl InTick s s" by (rule refines_same) simp
  from inv enc show ?thesis
  proof (cases rule: emit_oneE)
    case (sent ob)
    have "refines ssl InTick s (s\<lparr>outbox := ob, awaiting_pong := True, ping_sent_at := now,
        pong_deadline_at := d\<rparr>)" if "phase s = Ready" for d
      using sent that
      by (auto simp: refines_def emitted_def abs_sess_def intro!: exI [of _ "[ping]"] server_step.ping)
    with sent same show ?thesis by (auto simp: tick_def Let_def)
  next
    case overflow
    with same show ?thesis by (auto simp: tick_def Let_def)
  qed
qed

end
