(* ===== verification/Posix_Socket.thy ===== *)
theory Posix_Socket
  imports Bridge_Prelude
begin

text \<open>
  Non-blocking stream sockets as the bridge sees them.  What the kernel will answer to the
  next \<^verbatim>\<open>recv\<close> and \<^verbatim>\<open>send\<close> calls is a script in the socket, so every theorem holds for all
  answers a kernel can give: data in pieces of any size, end of stream, errors, interrupted
  calls.  A used-up script answers \<^verbatim>\<open>EAGAIN\<close>.  \<open>rx_taken\<close> and \<open>tx_written\<close> record the bytes
  that crossed the socket.
\<close>

datatype Errno = EAGAIN | EINTR | EOTHER

datatype RecvItem = RecvData "byte list" | RecvErr Errno

datatype SendItem = SendOk nat | SendErr Errno

record Socket =
  rx_script :: "RecvItem list"
  tx_script :: "SendItem list"
  rx_taken :: "byte list"
  tx_written :: "byte list"

text \<open>\<^verbatim>\<open>recv(fd, buf, cap, MSG_DONTWAIT)\<close>: the bytes (none at end of stream) or the error.
  Data that does not fit stays for the next call.\<close>

definition recv :: "nat \<Rightarrow> Socket \<Rightarrow> (Errno + byte list) \<times> Socket" where
  "recv cap k =
     (case rx_script k of
        [] \<Rightarrow> (Inl EAGAIN, k)
      | RecvErr e # sc \<Rightarrow> (Inl e, k\<lparr>rx_script := sc\<rparr>)
      | RecvData bs # sc \<Rightarrow>
          (Inr (take cap bs),
           k\<lparr>rx_script := (if length bs \<le> cap then sc else RecvData (drop cap bs) # sc),
             rx_taken := rx_taken k @ take cap bs\<rparr>))"

text \<open>\<^verbatim>\<open>send(fd, data, len, MSG_DONTWAIT | MSG_NOSIGNAL)\<close>: the number of bytes accepted.\<close>

definition send :: "byte list \<Rightarrow> Socket \<Rightarrow> (Errno + nat) \<times> Socket" where
  "send data k =
     (case tx_script k of
        [] \<Rightarrow> (Inl EAGAIN, k)
      | SendErr e # sc \<Rightarrow> (Inl e, k\<lparr>tx_script := sc\<rparr>)
      | SendOk n # sc \<Rightarrow>
          (Inr (min n (length data)),
           k\<lparr>tx_script := sc, tx_written := tx_written k @ take n data\<rparr>))"

text \<open>How much of the script is left: every call that does not answer a used-up script
  makes it smaller.\<close>

fun recv_size :: "RecvItem list \<Rightarrow> nat" where
  "recv_size [] = 0"
| "recv_size (RecvErr e # sc) = 1 + recv_size sc"
| "recv_size (RecvData bs # sc) = 1 + length bs + recv_size sc"

lemma recv_size_less:
  assumes "recv cap k = (r, k')" and "0 < cap" and "rx_script k \<noteq> []"
  shows "recv_size (rx_script k') < recv_size (rx_script k)"
  using assms by (auto simp: recv_def split: list.splits RecvItem.splits)

lemma recv_size_dec:
  assumes "recv cap k = (r, k')" and "0 < cap" and "r \<noteq> Inl EAGAIN"
  shows "recv_size (rx_script k') < recv_size (rx_script k)"
  using assms recv_size_less [OF assms(1,2)] by (auto simp: recv_def split: list.splits)

lemma recv_dataD:
  assumes "recv cap k = (Inr bs, k')"
  shows "rx_taken k' = rx_taken k @ bs" "length bs \<le> cap" "tx_written k' = tx_written k"
    "tx_script k' = tx_script k"
  using assms by (auto simp: recv_def split: list.splits RecvItem.splits)

lemma recv_errD:
  assumes "recv cap k = (Inl e, k')"
  shows "rx_taken k' = rx_taken k" "tx_written k' = tx_written k" "tx_script k' = tx_script k"
  using assms by (auto simp: recv_def split: list.splits RecvItem.splits)

lemma send_dec:
  assumes "send data k = (r, k')" and "r \<noteq> Inl EAGAIN"
  shows "length (tx_script k') < length (tx_script k)"
  using assms by (auto simp: send_def split: list.splits SendItem.splits)

lemma send_okD:
  assumes "send data k = (Inr n, k')"
  shows "tx_written k' = tx_written k @ take n data" "n \<le> length data"
    "rx_taken k' = rx_taken k" "rx_script k' = rx_script k"
  using assms by (auto simp: send_def min_def split: list.splits SendItem.splits)

lemma send_errD:
  assumes "send data k = (Inl e, k')"
  shows "tx_written k' = tx_written k" "rx_taken k' = rx_taken k" "rx_script k' = rx_script k"
  using assms by (auto simp: send_def split: list.splits SendItem.splits)

end
