(* ===== verification/Xr_Connection.thy ===== *)
theory Xr_Connection
  imports Xr_Session_Refine Posix_Socket
begin

text \<open>
  One accepted firmware connection, \<^verbatim>\<open>src/src/xr/xr_connection.{h,cpp}\<close>: a socket bound to a
  session and the backend.  The second component of the state is the backend, which outlives
  the connection.
\<close>

record XrConnection =
  conn_sock :: Socket
  session :: XrSession
  socket_error :: bool

subsection \<open>Construction and destruction\<close>

definition open_connection ::
  "'b RadioBackend \<Rightarrow> u64 \<Rightarrow> AuthConfig \<Rightarrow> Timeouts \<Rightarrow> nat \<Rightarrow> Socket \<Rightarrow> 'b \<Rightarrow> XrConnection \<times> 'b" where
  "open_connection B now a t max_outbox k b =
     (let b = set_sink B True b;
          (s, b) = open_session B now (new_session a t max_outbox, b)
      in (\<lparr>conn_sock = k, session = s, socket_error = False\<rparr>, b))"

definition close_connection :: "'b RadioBackend \<Rightarrow> u64 \<Rightarrow> 'b \<Rightarrow> 'b" where
  "close_connection B now b =
     (let b = abandon_pending_tx B now b;
          b = set_sink B False b
      in stop B b)"

subsection \<open>Socket output\<close>

definition out_size :: "XrSession \<Rightarrow> nat" where
  "out_size s = bb_size (outbox s)"

definition out_consume :: "nat \<Rightarrow> XrSession \<Rightarrow> XrSession" where
  "out_consume n s = s\<lparr>outbox := bb_consume (outbox s) n\<rparr>"

function flush :: "XrConnection \<Rightarrow> XrConnection" where
  "flush c =
     (if out_size (session c) > 0 then
        (case send (bb_data (outbox (session c))) (conn_sock c) of
           (Inr w, k) \<Rightarrow>
             if w > 0 then
               flush (c\<lparr>conn_sock := k, session := out_consume w (session c)\<rparr>)
             else c\<lparr>conn_sock := k, socket_error := True\<rparr>
         | (Inl EAGAIN, k) \<Rightarrow> c\<lparr>conn_sock := k\<rparr>
         | (Inl EINTR, k) \<Rightarrow> flush (c\<lparr>conn_sock := k\<rparr>)
         | (Inl EOTHER, k) \<Rightarrow> c\<lparr>conn_sock := k, socket_error := True\<rparr>)
      else c)"
  by pat_completeness auto
termination
  by (relation "measure (\<lambda>c. length (tx_script (conn_sock c)))") (auto dest: send_dec [OF sym])

declare flush.simps [simp del]

definition service_write :: "XrConnection \<Rightarrow> XrConnection" where
  "service_write c = flush c"

subsection \<open>Socket input\<close>

abbreviation kConnReadChunk :: nat where
  "kConnReadChunk \<equiv> 1024"

function read_loop ::
  "'b RadioBackend \<Rightarrow> openssl \<Rightarrow> u64 \<Rightarrow> XrConnection \<times> 'b \<Rightarrow> XrConnection \<times> 'b" where
  "read_loop B ssl now (c, b) =
     (case recv kConnReadChunk (conn_sock c) of
        (Inr buf, k) \<Rightarrow>
          if buf \<noteq> [] then
            let (s, b) = feed B ssl now buf (session c, b);
                c = c\<lparr>conn_sock := k, session := s\<rparr>
            in if phase s = Closed then (c, b)
               else if length buf < kConnReadChunk then (c, b)
               else read_loop B ssl now (c, b)
          else (c\<lparr>conn_sock := k, socket_error := True\<rparr>, b)
      | (Inl EAGAIN, k) \<Rightarrow> (c\<lparr>conn_sock := k\<rparr>, b)
      | (Inl EINTR, k) \<Rightarrow> read_loop B ssl now (c\<lparr>conn_sock := k\<rparr>, b)
      | (Inl EOTHER, k) \<Rightarrow> (c\<lparr>conn_sock := k, socket_error := True\<rparr>, b))"
  by pat_completeness auto
termination
  by (relation "measure (\<lambda>(B, ssl, now, c, b). recv_size (rx_script (conn_sock c)))")
     (auto dest!: recv_size_dec [OF sym])

declare read_loop.simps [simp del]

definition service_read ::
  "'b RadioBackend \<Rightarrow> openssl \<Rightarrow> u64 \<Rightarrow> XrConnection \<times> 'b \<Rightarrow> XrConnection \<times> 'b" where
  "service_read B ssl now cb = map_prod flush id (read_loop B ssl now cb)"

subsection \<open>Backend, time, end of life\<close>

definition pump_backend ::
  "'b RadioBackend \<Rightarrow> u64 \<Rightarrow> XrConnection \<times> 'b \<Rightarrow> XrConnection \<times> 'b" where
  "pump_backend B now cb =
     (let (c, b) = cb; (es, b) = poll B now b
      in (c\<lparr>session := fold (on_event now) es (session c)\<rparr>, b))"

definition tick_connection ::
  "'b RadioBackend \<Rightarrow> u64 \<Rightarrow> XrConnection \<times> 'b \<Rightarrow> XrConnection \<times> 'b" where
  "tick_connection B now cb =
     (let (c, b) = cb; (s, b) = tick B now (session c, b) in (c\<lparr>session := s\<rparr>, b))"

definition want_write :: "XrConnection \<Rightarrow> bool" where
  "want_write c \<longleftrightarrow> out_size (session c) > 0"

definition finished :: "XrConnection \<Rightarrow> bool" where
  "finished c \<longleftrightarrow>
     (if socket_error c then True else phase (session c) = Closed \<and> out_size (session c) = 0)"

end
