(* ===== verification/Xr_Link.thy ===== *)
theory Xr_Link
  imports Xr_Connection
begin

text \<open>
  Whole lives of a connection.  \<open>link_run\<close> is the reachability relation of a connection and
  its backend under every order of the operations the server calls, every clock and every
  behaviour of the kernel.  Inside the contract of the backend, such a life is a run of the
  abstract server: the bytes taken from the socket are the frames of its inputs, the bytes
  written and still queued are the frames it emitted, and the backend's open transmission is
  the session's.
\<close>

subsection \<open>Lives of a connection\<close>

text \<open>A successful \<^verbatim>\<open>RAND_bytes(out, 16)\<close> fills the sixteen bytes; each call draws anew.\<close>

definition rand_ok :: "byte list option \<Rightarrow> bool" where
  "rand_ok r \<longleftrightarrow> (case r of None \<Rightarrow> True | Some n \<Rightarrow> length n = 16)"

inductive link_run ::
  "'b RadioBackend \<Rightarrow> openssl \<Rightarrow> AuthConfig \<Rightarrow> 'b \<Rightarrow> XrConnection \<times> 'b \<Rightarrow> SinkEvent list \<Rightarrow> bool"
  for B :: "'b RadioBackend" and ssl :: openssl and a :: AuthConfig and b0 :: 'b where
  opened: "rx_taken k = [] \<Longrightarrow> tx_written k = [] \<Longrightarrow>
     link_run B ssl a b0 (open_connection B now a t max_outbox k b0) []"
| reads: "link_run B ssl a b0 cb evs \<Longrightarrow> rand_ok r \<Longrightarrow>
     link_run B ssl a b0 (service_read B (ssl\<lparr>RAND_bytes := r\<rparr>) now cb) evs"
| writes: "link_run B ssl a b0 (c, b) evs \<Longrightarrow> link_run B ssl a b0 (service_write c, b) evs"
| pumps: "link_run B ssl a b0 cb evs \<Longrightarrow>
     link_run B ssl a b0 (pump_backend B now cb) (evs @ fst (poll B now (snd cb)))"
| ticks: "link_run B ssl a b0 cb evs \<Longrightarrow> link_run B ssl a b0 (tick_connection B now cb) evs"
| kernel: "link_run B ssl a b0 (c, b) evs \<Longrightarrow>
     link_run B ssl a b0
       (c\<lparr>conn_sock := (conn_sock c)\<lparr>rx_script := rx, tx_script := tx\<rparr>\<rparr>, b) evs"

subsection \<open>The run of the abstract server behind a session\<close>

fun input_bytes :: "server_input \<Rightarrow> byte list" where
  "input_bytes (InFrame f) = frame_bytes f"
| "input_bytes _ = []"

fun input_events :: "server_input \<Rightarrow> SinkEvent list" where
  "input_events (InEvent e) = [e]"
| "input_events _ = []"

definition bytes_in :: "(server_input \<times> Frame list) list \<Rightarrow> byte list" where
  "bytes_in ios = concat (map (input_bytes \<circ> fst) ios)"

definition events_in :: "(server_input \<times> Frame list) list \<Rightarrow> SinkEvent list" where
  "events_in ios = concat (map (input_events \<circ> fst) ios)"

definition bytes_out :: "(server_input \<times> Frame list) list \<Rightarrow> byte list" where
  "bytes_out ios = concat (map frame_bytes (outputs ios))"

lemma io_simps [simp]:
  "bytes_in [] = []" "bytes_in (ios @ [(i, fs)]) = bytes_in ios @ input_bytes i"
  "events_in [] = []" "events_in (ios @ [(i, fs)]) = events_in ios @ input_events i"
  "bytes_out [] = []" "bytes_out (ios @ [(i, fs)]) = bytes_out ios @ concat (map frame_bytes fs)"
  by (simp_all add: bytes_in_def events_in_def bytes_out_def)

text \<open>
  The session \<open>s\<close> of authentication \<open>a\<close> used the bytes \<open>used\<close> as frames and was given the
  events \<open>evs\<close>; its output, of which \<open>w\<close> was already written, is that of the abstract server.
\<close>

definition session_trace ::
  "openssl \<Rightarrow> AuthConfig \<Rightarrow> byte list \<Rightarrow> SinkEvent list \<Rightarrow> byte list \<Rightarrow> XrSession \<Rightarrow> bool" where
  "session_trace ssl a used evs w s \<longleftrightarrow> auth s = a \<and>
     (\<exists>ios. server_run (password_configured a) (sess_verify ssl a) SHello ios (abs_sess s) \<and>
        bytes_in ios = used \<and> events_in ios = evs \<and> bytes_out ios = w @ bb_data (outbox s))"

lemma session_trace_step:
  assumes "session_trace ssl a used evs w s" and "refines ssl i s s'"
  shows "session_trace ssl a (used @ input_bytes i) (evs @ input_events i) w s'"
proof -
  from assms obtain ios fs where
    run: "server_run (password_configured a) (sess_verify ssl a) SHello ios (abs_sess s)"
    and io: "bytes_in ios = used" "events_in ios = evs" "bytes_out ios = w @ bb_data (outbox s)"
    and au: "auth s = a" "auth s' = a"
    and step: "emitted s fs s'" "sess_step ssl a (abs_sess s) i fs (abs_sess s')"
    by (auto simp: session_trace_def refines_def)
  from server_run.snoc [OF run step(2)] io step(1) au show ?thesis
    by (auto simp: session_trace_def emitted_def intro!: exI [of _ "ios @ [(i, fs)]"])
qed

lemma session_trace_cong:
  assumes "session_trace ssl a used evs w s"
    and "auth s' = auth s" "abs_sess s' = abs_sess s" "outbox s' = outbox s"
  shows "session_trace ssl a used evs w s'"
  using assms by (simp add: session_trace_def)

text \<open>Closing is a step of the abstract server that no input needs to announce.\<close>

lemma session_trace_close:
  assumes "session_trace ssl a used evs w s"
  shows "session_trace ssl a used evs w (close r s)"
  using session_trace_step [OF assms refines_close [of ssl InTick s r]] by simp

lemma session_trace_events:
  assumes "sess_inv s" and "session_trace ssl a used evs w s"
    and "\<And>rx. OnRx rx \<in> set es \<Longrightarrow> rx_wf rx"
  shows "session_trace ssl a used (evs @ es) w (fold (on_event now) es s)"
  using assms
proof (induction es arbitrary: s evs)
  case (Cons e es)
  have "session_trace ssl a used (evs @ [e]) w (on_event now e s)"
    using session_trace_step [OF Cons.prems(2) refines_on_event [OF Cons.prems(1), of e]]
      Cons.prems(3) by simp
  from Cons.IH [OF sess_inv_on_event [OF Cons.prems(1)] this] Cons.prems(3) show ?case by simp
qed simp

lemma handle_frame_closed: "phase s = Closed \<Longrightarrow> handle_frame B ssl now f (s, b) = (s, b)"
  by (simp add: handle_frame_def close_def)

subsection \<open>Reading\<close>

abbreviation nonce_ok :: "openssl \<Rightarrow> bool" where
  "nonce_ok ssl \<equiv> rand_ok (RAND_bytes ssl)"

lemma sess_verify_rand [simp]: "sess_verify (ssl\<lparr>RAND_bytes := r\<rparr>) = sess_verify ssl"
  by (simp add: fun_eq_iff sess_verify_def verify_auth_response_def hmac_sha256_def)

lemma session_trace_rand [simp]:
  "session_trace (ssl\<lparr>RAND_bytes := r\<rparr>) a used evs w s = session_trace ssl a used evs w s"
  by (simp add: session_trace_def)

lemma abs_sess_parser [simp]: "abs_sess (s\<lparr>parser := p\<rparr>) = abs_sess s"
  by (simp add: abs_sess_def)

lemma session_trace_parser [simp]:
  "session_trace ssl a used evs w (s\<lparr>parser := p\<rparr>) = session_trace ssl a used evs w s"
  by (simp add: session_trace_def)

text \<open>The bytes fed are those used as frames and, while the session lives, those still held.\<close>

lemma session_trace_feed:
  assumes inv: "sess_inv s" and tr: "session_trace ssl a used evs w s" and rnd: "nonce_ok ssl"
    and live: "phase s \<noteq> Closed"
  obtains u rest where "parser_held (parser s) @ data = u @ rest"
    "session_trace ssl a (used @ u) evs w (fst (feed B ssl now data (s, b)))"
    "phase (fst (feed B ssl now data (s, b))) \<noteq> Closed \<longrightarrow>
       parser_held (parser (fst (feed B ssl now data (s, b)))) = rest"
proof -
  let ?P = "\<lambda>u (sb :: XrSession \<times> 'a). sess_inv ((fst sb)\<lparr>parser := parser_init\<rparr>) \<and>
     session_trace ssl a u evs w (fst sb)"
  have start: "parser_invar (sb_parser (s, b))" "phase (fst (s, b)) \<noteq> Closed" "?P used (s, b)"
    using inv tr live sess_inv_split [of s] by (auto dest: sess_invD)
  have step: "?P (c @ take n xs) (handle_frame B ssl now f sb)"
    if run: "phase (fst sb) \<noteq> Closed" and d: "xr_deframe xs = Got f n" and P: "?P c sb"
    for c xs f n and sb :: "XrSession \<times> 'a"
  proof -
    let ?s = "(fst sb)\<lparr>parser := parser_init\<rparr>"
    have ref: "refines ssl (InFrame f) ?s (fst (handle_frame B ssl now f (?s, snd sb)))"
      using P run rnd by (intro refines_handle_frame) (auto simp: rand_ok_def)
    have tr: "session_trace ssl a c evs w ?s" using P by simp
    have "handle_frame B ssl now f (?s, snd sb) =
        sb_set_parser parser_init (handle_frame B ssl now f sb)"
      using handle_frame_set_parser [of B ssl now f parser_init sb] by (cases sb) simp
    with session_trace_step [OF tr ref]
    have "session_trace ssl a (c @ frame_bytes f) evs w (fst (handle_frame B ssl now f sb))"
      by simp
    moreover have "sess_inv (fst (handle_frame B ssl now f (sb_set_parser parser_init sb)))"
      using P by (intro sess_inv_handle_frame) simp
    ultimately show ?thesis
      using xr_deframe_take [OF d] by (simp add: handle_frame_set_parser)
  qed
  have fail: "?P c (map_prod (close ParserError) id sb)" if P: "?P c sb"
    for c and sb :: "XrSession \<times> 'a"
  proof -
    have "sess_inv (close ParserError ((fst sb)\<lparr>parser := parser_init\<rparr>))"
      using P by (intro sess_inv_close) simp_all
    then show ?thesis using P session_trace_close by simp
  qed
  have set: "?P c (sb_set_parser p sb)" if "?P c sb" for c p and sb :: "XrSession \<times> 'a"
    using that by simp
  obtain u rest where "parser_held (sb_parser (s, b)) @ data = u @ rest"
    "?P (used @ u) (feed_loop B ssl now data (s, b))"
    "phase (fst (feed_loop B ssl now data (s, b))) \<noteq> Closed \<longrightarrow>
       parser_held (sb_parser (feed_loop B ssl now data (s, b))) = rest"
    using xrs.loop_trace [of "(s, b)" ?P used B ssl now data, OF start step fail set] by blast
  then show ?thesis using live by (intro that [of u rest]) (simp_all add: feed_def)
qed

subsection \<open>The account of a connection\<close>

text \<open>
  Every byte taken from the socket was used as part of a frame or is still held by the parser
  (or came after the session closed); every byte of output was written or is still queued.
\<close>

definition conn_trace :: "openssl \<Rightarrow> AuthConfig \<Rightarrow> SinkEvent list \<Rightarrow> XrConnection \<Rightarrow> bool" where
  "conn_trace ssl a evs c \<longleftrightarrow> sess_inv (session c) \<and>
     (\<exists>used rest. rx_taken (conn_sock c) = used @ rest \<and>
        (phase (session c) \<noteq> Closed \<longrightarrow> rest = parser_held (parser (session c))) \<and>
        session_trace ssl a used evs (tx_written (conn_sock c)) (session c))"

lemma conn_trace_rand [simp]:
  "conn_trace (ssl\<lparr>RAND_bytes := r\<rparr>) a evs c = conn_trace ssl a evs c"
  by (simp add: conn_trace_def)

lemma conn_trace_sock:
  assumes "conn_trace ssl a evs c" and "rx_taken k = rx_taken (conn_sock c)"
    and "tx_written k = tx_written (conn_sock c)"
  shows "conn_trace ssl a evs (c\<lparr>conn_sock := k\<rparr>)"
  using assms by (simp add: conn_trace_def)

lemma conn_trace_error [simp]:
  "conn_trace ssl a evs (c\<lparr>socket_error := e\<rparr>) = conn_trace ssl a evs c"
  "conn_trace ssl a evs (c\<lparr>conn_sock := k, socket_error := e\<rparr>) =
     conn_trace ssl a evs (c\<lparr>conn_sock := k\<rparr>)"
  by (simp_all add: conn_trace_def)

lemma conn_trace_open:
  assumes "rx_taken k = []" "tx_written k = []"
  shows "conn_trace ssl a [] (fst (open_connection B now a t max_outbox k b))"
proof -
  let ?s = "new_session a t max_outbox"
  have "sess_inv (fst (open_session B now (?s, set_sink B True b)))"
    by (rule sess_inv_open) (simp_all add: new_session_def bb_defs parser_init_def
        parser_invar_def parserReset_def)
  moreover have "session_trace ssl a [] [] [] (fst (open_session B now (?s, set_sink B True b)))"
    by (auto simp: session_trace_def open_session_def new_session_def arm_def abs_sess_def
        bb.contents_clear intro!: exI [of _ "[]"] server_run.nil)
  moreover have "parser_held (parser (fst (open_session B now (?s, set_sink B True b)))) = []"
    by (simp add: open_session_def new_session_def arm_def parserReset_def parser_held_def)
  ultimately show ?thesis
    using assms by (auto simp: conn_trace_def open_connection_def Let_def split_beta)
qed

lemma conn_trace_sent:
  assumes tr: "conn_trace ssl a evs c"
    and snd: "send (bb_data (outbox (session c))) (conn_sock c) = (Inr n, k)"
  shows "conn_trace ssl a evs (c\<lparr>conn_sock := k, session := out_consume n (session c)\<rparr>)"
proof -
  let ?s = "session c"
  have "bb_invar (outbox ?s)" using tr by (simp add: conn_trace_def sess_invD)
  then have "bb_data (bb_consume (outbox ?s) n) = drop n (bb_data (outbox ?s))"
    "bb_invar (bb_consume (outbox ?s) n)"
    by (simp_all add: bb.contents_consume bb.invar_consume)
  moreover have "abs_sess (out_consume n ?s) = abs_sess ?s"
    by (simp add: abs_sess_def out_consume_def)
  ultimately show ?thesis
    using tr send_okD [OF snd] sess_inv_outbox [of ?s]
    by (auto simp: conn_trace_def session_trace_def out_consume_def)
qed

lemma conn_trace_flush:
  "conn_trace ssl a evs c \<Longrightarrow> conn_trace ssl a evs (flush c)"
proof (induction c rule: flush.induct)
  case (1 c)
  obtain r k where send: "send (bb_data (outbox (session c))) (conn_sock c) = (r, k)" by fastforce
  show ?case
  proof (cases r)
    case (Inl e)
    then have "conn_trace ssl a evs (c\<lparr>conn_sock := k\<rparr>)"
      using 1(3) send send_errD by (auto intro!: conn_trace_sock)
    with 1 Inl send show ?thesis
      by (cases e) (auto simp: flush.simps [of c])
  next
    case (Inr n)
    have "conn_trace ssl a evs (c\<lparr>conn_sock := k, session := out_consume n (session c)\<rparr>)"
      by (rule conn_trace_sent [OF 1(3)]) (simp add: send Inr)
    moreover have "conn_trace ssl a evs (c\<lparr>conn_sock := k\<rparr>)" if "n = 0"
      using 1(3) send_okD [of _ _ n k] send Inr that by (auto intro!: conn_trace_sock)
    ultimately show ?thesis
      using 1 Inr send by (auto simp: flush.simps [of c])
  qed
qed

lemma conn_trace_fed:
  assumes tr: "conn_trace ssl a evs c" and rnd: "nonce_ok ssl"
    and rcv: "recv n (conn_sock c) = (Inr bs, k)"
  shows "conn_trace ssl a evs
     (c\<lparr>conn_sock := k, session := fst (feed B ssl now bs (session c, b))\<rparr>)"
proof -
  let ?s = "session c"
  obtain used rest where inv: "sess_inv ?s" and taken: "rx_taken (conn_sock c) = used @ rest"
    and rest: "phase ?s \<noteq> Closed \<longrightarrow> rest = parser_held (parser ?s)"
    and st: "session_trace ssl a used evs (tx_written (conn_sock c)) ?s"
    using tr by (auto simp: conn_trace_def)
  note sock = recv_dataD [OF rcv]
  show ?thesis
  proof (cases "phase ?s = Closed")
    case True
    then have "feed B ssl now bs (?s, b) = (?s, b)" by (simp add: feed_def)
    then show ?thesis using inv st taken sock True
      by (auto simp: conn_trace_def)
  next
    case False
    obtain u r where "parser_held (parser ?s) @ bs = u @ r"
      and tr': "session_trace ssl a (used @ u) evs (tx_written (conn_sock c))
        (fst (feed B ssl now bs (?s, b)))"
        "phase (fst (feed B ssl now bs (?s, b))) \<noteq> Closed \<longrightarrow>
           parser_held (parser (fst (feed B ssl now bs (?s, b)))) = r"
      using session_trace_feed [OF inv st rnd False] by metis
    then have "rx_taken k = (used @ u) @ r" using taken rest False sock by simp
    moreover have "sess_inv (fst (feed B ssl now bs (?s, b)))"
      by (rule sess_inv_feed) (simp add: inv)
    ultimately show ?thesis using tr' sock
      by (auto simp: conn_trace_def simp del: append_assoc)
  qed
qed

lemma conn_trace_read_loop:
  assumes "conn_trace ssl a evs (fst cb)" and rnd: "nonce_ok ssl"
  shows "conn_trace ssl a evs (fst (read_loop B ssl now cb))"
  using assms(1)
proof (induction "recv_size (rx_script (conn_sock (fst cb)))" arbitrary: cb rule: less_induct)
  case less
  obtain c b where cb: "cb = (c, b)" by fastforce
  obtain r k where rcv: "recv kConnReadChunk (conn_sock c) = (r, k)" by fastforce
  have IH: "conn_trace ssl a evs (fst (read_loop B ssl now cb'))"
    if "conn_sock (fst cb') = k" "r \<noteq> Inl EAGAIN" "conn_trace ssl a evs (fst cb')" for cb'
    using less.hyps [of cb'] that recv_size_dec [OF rcv] by (simp add: cb)
  show ?case
  proof (cases r)
    case (Inl e)
    then have "conn_trace ssl a evs (c\<lparr>conn_sock := k\<rparr>)"
      using less.prems cb rcv recv_errD by (auto intro!: conn_trace_sock)
    with Inl rcv IH [of "(c\<lparr>conn_sock := k\<rparr>, b)"] show ?thesis
      by (cases e) (auto simp: cb read_loop.simps [of _ _ _ c])
  next
    case (Inr bs)
    obtain s' b' where fd: "feed B ssl now bs (session c, b) = (s', b')" by fastforce
    let ?c = "c\<lparr>conn_sock := k, session := s'\<rparr>"
    have "conn_trace ssl a evs ?c"
      using conn_trace_fed [of ssl a evs c kConnReadChunk bs k B now b] less.prems cb rnd rcv Inr fd
      by simp
    moreover have "conn_trace ssl a evs (c\<lparr>conn_sock := k\<rparr>)" if "bs = []"
      using less.prems cb recv_dataD [of _ _ bs k] rcv Inr that by (auto intro!: conn_trace_sock)
    ultimately show ?thesis
      using Inr rcv fd IH [of "(?c, b')"] by (auto simp: cb read_loop.simps [of _ _ _ c] Let_def)
  qed
qed

lemma conn_trace_step:
  assumes "conn_trace ssl a evs c" and "sess_inv s'" and "parser s' = parser (session c)"
    and "phase s' \<noteq> Closed \<Longrightarrow> phase (session c) \<noteq> Closed"
    and "\<And>used w. session_trace ssl a used evs w (session c) \<Longrightarrow> session_trace ssl a used evs' w s'"
  shows "conn_trace ssl a evs' (c\<lparr>session := s'\<rparr>)"
  using assms by (auto simp: conn_trace_def)

lemma closed_event: "phase s = Closed \<Longrightarrow> sess_inv s \<Longrightarrow> on_event now e s = s"
  by (cases e) (auto simp: on_rx_def on_tx_complete_def on_backend_failure_def
      on_configure_complete_def close_def dest: sess_invD)

lemma closed_events: "phase s = Closed \<Longrightarrow> sess_inv s \<Longrightarrow> fold (on_event now) es s = s"
  by (induction es) (simp_all add: closed_event)

lemma parser_on_event [simp]: "parser (on_event now e s) = parser s"
  by (cases e) (simp_all add: on_rx_def on_tx_complete_def map_and_send_tx_result_def
      on_backend_failure_def on_configure_complete_def enter_ready_def Let_def split_beta)

lemma parser_events [simp]: "parser (fold (on_event now) es s) = parser s"
  by (induction es arbitrary: s) simp_all

lemma parser_tick [simp]: "parser (fst (tick B now (s, b))) = parser s"
  by (simp add: tick_def Let_def split_beta)

lemma conn_trace_events:
  assumes tr: "conn_trace ssl a evs c" and wf: "\<And>rx. OnRx rx \<in> set es \<Longrightarrow> rx_wf rx"
  shows "conn_trace ssl a (evs @ es) (c\<lparr>session := fold (on_event now) es (session c)\<rparr>)"
proof (rule conn_trace_step [OF tr])
  have inv: "sess_inv (session c)" using tr by (simp add: conn_trace_def)
  then show "sess_inv (fold (on_event now) es (session c))" by (rule sess_inv_events)
  show "session_trace ssl a used (evs @ es) w (fold (on_event now) es (session c))"
    if "session_trace ssl a used evs w (session c)" for used w
    by (rule session_trace_events [OF inv that wf])
  show "phase (session c) \<noteq> Closed" if "phase (fold (on_event now) es (session c)) \<noteq> Closed"
    using closed_events [OF _ inv] that by metis
qed simp

lemma conn_trace_tick:
  assumes tr: "conn_trace ssl a evs c"
  shows "conn_trace ssl a evs (c\<lparr>session := fst (tick B now (session c, b))\<rparr>)"
proof (rule conn_trace_step [OF tr])
  have inv: "sess_inv (session c)" using tr by (simp add: conn_trace_def)
  then show "sess_inv (fst (tick B now (session c, b)))" by (rule sess_inv_tick)
  show "session_trace ssl a used evs w (fst (tick B now (session c, b)))"
    if "session_trace ssl a used evs w (session c)" for used w
    using session_trace_step [OF that refines_tick [OF inv]] by simp
  show "phase (session c) \<noteq> Closed" if "phase (fst (tick B now (session c, b))) \<noteq> Closed"
    using that by (auto simp: tick_def)
qed simp

subsection \<open>The transmission in flight\<close>

text \<open>The session waits for a completion exactly while the backend can still deliver one.\<close>

definition tx_link :: "('b \<Rightarrow> bool) \<Rightarrow> XrSession \<Rightarrow> 'b \<Rightarrow> bool" where
  "tx_link tx_open s b \<longleftrightarrow> (tx_in_flight s \<longrightarrow> tx_open b) \<and>
     (tx_open b \<longrightarrow> tx_in_flight s \<or> phase s = Closed)"

lemma tx_link_closed: "phase s = Closed \<Longrightarrow> \<not> tx_in_flight s \<Longrightarrow> tx_link tx_open s b"
  by (simp add: tx_link_def)

lemma tx_in_flight_close: "sess_inv s \<Longrightarrow> \<not> tx_in_flight (close r s)"
  by (auto simp: close_def dest: sess_invD)

lemma tx_link_close [intro]: "sess_inv s \<Longrightarrow> tx_link tx_open (close r s) b"
  by (simp add: tx_link_def tx_in_flight_close)

lemma tx_in_flight_emit:
  assumes "sess_inv s"
  shows "tx_in_flight (snd (emit ty seq pl len s)) \<longrightarrow> tx_in_flight s"
    and "tx_in_flight s \<longrightarrow> tx_in_flight (snd (emit ty seq pl len s)) \<or>
       phase (snd (emit ty seq pl len s)) = Closed"
  using assms by (auto simp: emit_cases close_def split: option.split prod.split bool.split)

lemma tx_in_flight_event:
  assumes "sess_inv s"
  shows "tx_in_flight (on_event now e s) \<longrightarrow>
      tx_in_flight s \<and> (\<forall>r. e \<noteq> OnTxComplete r) \<and> e \<noteq> OnBackendFailure"
    and "tx_in_flight s \<longrightarrow> (\<forall>r. e \<noteq> OnTxComplete r) \<longrightarrow>
      tx_in_flight (on_event now e s) \<or> phase (on_event now e s) = Closed"
  using assms
  by (cases e; auto simp: on_rx_def on_tx_complete_def map_and_send_tx_result_def
      on_backend_failure_def on_configure_complete_def enter_ready_def emit_cases close_def Let_def
      dest: sess_invD split: option.splits prod.splits bool.splits if_splits)+

lemma tx_in_flight_events:
  "sess_inv s \<Longrightarrow> tx_in_flight (fold (on_event now) es s) \<Longrightarrow>
     tx_in_flight s \<and> (\<forall>r. OnTxComplete r \<notin> set es) \<and> OnBackendFailure \<notin> set es"
proof (induction es arbitrary: s)
  case (Cons e es)
  from Cons.IH [of "on_event now e s"] Cons.prems sess_inv_on_event [OF Cons.prems(1)]
    tx_in_flight_event(1) [OF Cons.prems(1), of now e] show ?case by auto
qed simp

lemma tx_in_flight_pending:
  "sess_inv s \<Longrightarrow> tx_in_flight s \<Longrightarrow> \<forall>r. OnTxComplete r \<notin> set es \<Longrightarrow>
     tx_in_flight (fold (on_event now) es s) \<or> phase (fold (on_event now) es s) = Closed"
proof (induction es arbitrary: s)
  case (Cons e es)
  note inv = sess_inv_on_event [OF Cons.prems(1), of now e]
  from tx_in_flight_event(2) [OF Cons.prems(1), of e now] Cons.prems
  have "tx_in_flight (on_event now e s) \<or> phase (on_event now e s) = Closed" by auto
  then show ?case
    using Cons.IH [OF inv] closed_events [OF _ inv] Cons.prems by auto
qed simp

subsection \<open>Connections of a backend that keeps the contract\<close>

definition linked ::
  "('b \<Rightarrow> bool) \<Rightarrow> ('b \<Rightarrow> bool) \<Rightarrow> ('b \<Rightarrow> bool) \<Rightarrow> XrSession \<times> 'b \<Rightarrow> bool" where
  "linked binv attached tx_open sb \<longleftrightarrow>
     binv (snd sb) \<and> attached (snd sb) \<and> tx_link tx_open (fst sb) (snd sb)"

lemma linked_close:
  "sess_inv s \<Longrightarrow> binv b \<Longrightarrow> attached b \<Longrightarrow> linked binv attached tx_open (close r s, b)"
  by (auto simp: linked_def)

lemma linked_parser [simp]:
  "linked binv attached tx_open (s\<lparr>parser := p\<rparr>, b) = linked binv attached tx_open (s, b)"
  by (simp add: linked_def tx_link_def)

text \<open>A step outside the operational phase starts no transmission.\<close>

lemma linked_idle:
  assumes "linked binv attached tx_open (s, b)" and "\<not> tx_in_flight s" "phase s \<noteq> Closed"
    and "\<not> tx_in_flight s'" "binv b'" "attached b'" "tx_open b' = tx_open b"
  shows "linked binv attached tx_open (s', b')"
  using assms by (auto simp: linked_def tx_link_def)

lemma tx_in_flight_handshake:
  assumes "\<not> tx_in_flight s"
  shows "\<not> tx_in_flight (handle_hello ssl now f s)" "\<not> tx_in_flight (handle_auth ssl now f s)"
    "\<not> tx_in_flight (fst (handle_configure B now f (s, b)))"
  using assms
  by (auto simp: handle_hello_def handle_auth_def handle_configure_def arm_def emit_cases close_def
      Let_def split_beta split: option.splits prod.splits bool.splits if_splits)

context radio_backend
begin

lemma linked_configure:
  assumes "linked binv attached tx_open (s, b)" and "\<not> tx_in_flight s" "phase s \<noteq> Closed"
  shows "linked binv attached tx_open (handle_configure B now f (s, b))"
proof -
  let ?sb = "handle_configure B now f (s, b)"
  have "snd ?sb = b \<or> (\<exists>c. snd ?sb = snd (begin_configure B now c b))"
    by (auto simp: handle_configure_def Let_def split_beta split: option.splits)
  moreover have "binv b" "attached b" using assms(1) by (simp_all add: linked_def)
  ultimately have "binv (snd ?sb)" "attached (snd ?sb)" "tx_open (snd ?sb) = tx_open b"
    by (auto simp: binv_begin_configure attached_begin_configure tx_open_begin_configure)
  then show ?thesis
    using linked_idle [OF assms, of "fst ?sb" "snd ?sb"] tx_in_flight_handshake(3) [OF assms(2), of B now f b]
    by simp
qed

lemma linked_ready_frame:
  assumes l: "linked binv attached tx_open (s, b)" and inv: "sess_inv s" and ph: "phase s = Ready"
  shows "linked binv attached tx_open (handle_ready_frame B now f (s, b))"
proof -
  have b: "binv b" "attached b" "tx_link tx_open s b" using l by (simp_all add: linked_def)
  let ?d = "take (unat (flen f)) (fpayload f)"
  obtain ok b' where sub: "submit_tx B ?d b = (ok, b')" by fastforce
  have b': "binv b'" "attached b'"
    using binv_submit_tx [of b ?d] attached_submit_tx [of ?d b] b sub by simp_all
  have "ok \<Longrightarrow> tx_open b'" using submit_accepts [of b ?d] b sub by simp
  then have acc: "ok \<Longrightarrow> linked binv attached tx_open
      (s\<lparr>tx_seq := q, tx_in_flight := True, tx_deadline_at := d\<rparr>, b')" for q d
    using b' by (simp add: linked_def tx_link_def)
  have rej: "linked binv attached tx_open (close r (s\<lparr>tx_seq := q\<rparr>), b')"
    if "\<not> tx_in_flight s" for r q
    using b' inv ph that by (intro linked_close) (auto simp: sess_inv_def)
  have "linked binv attached tx_open (close BadState s, b)" using inv b by (intro linked_close)
  with acc rej sub l show ?thesis
    by (auto simp: handle_ready_frame_def Let_def linked_def tx_link_def)
qed

lemma linked_handle_frame:
  assumes inv: "sess_inv s" and l: "linked binv attached tx_open (s, b)"
  shows "linked binv attached tx_open (handle_frame B ssl now f (s, b))"
proof -
  have b: "binv b" "attached b" using l by (simp_all add: linked_def)
  have idle: "linked binv attached tx_open (s', b)"
    if "\<not> tx_in_flight s'" "phase s \<noteq> Closed" "\<not> tx_in_flight s" for s'
    using linked_idle [OF l that(3,2,1) b] by simp
  have early: "phase s \<noteq> Ready \<Longrightarrow> \<not> tx_in_flight s" using sess_invD(3) [OF inv] by blast
  note close = linked_close [of s binv b attached, OF inv b]
  show ?thesis
    using l close early tx_in_flight_handshake [of s] idle linked_configure [of s b]
      linked_ready_frame [OF l inv]
    by (auto simp: handle_frame_def split: Phase.split)
qed

lemma linked_feed:
  assumes inv: "sess_inv s" and l: "linked binv attached tx_open (s, b)"
  shows "linked binv attached tx_open (feed B ssl now data (s, b))"
proof -
  let ?P = "\<lambda>sb. sess_inv ((fst sb)\<lparr>parser := parser_init\<rparr>) \<and> linked binv attached tx_open sb"
  have step: "?P (handle_frame B ssl now f sb)" if P: "?P sb" for f sb
  proof -
    let ?sb = "sb_set_parser parser_init sb"
    have "linked binv attached tx_open (handle_frame B ssl now f ?sb)"
      using linked_handle_frame [of "fst ?sb" "snd ?sb"] P by (cases sb) simp
    moreover have "sess_inv (fst (handle_frame B ssl now f ?sb))"
      by (rule sess_inv_handle_frame) (use P in simp)
    ultimately show ?thesis
      by (cases "handle_frame B ssl now f sb") (simp add: handle_frame_set_parser)
  qed
  have fail: "?P (map_prod (close ParserError) id sb)" if "?P sb" for sb
  proof -
    let ?s = "(fst sb)\<lparr>parser := parser_init\<rparr>"
    have "linked binv attached tx_open (close ParserError ?s, snd sb)"
      using that by (intro linked_close) (auto simp: linked_def)
    then show ?thesis using that sess_inv_close [of ?s ParserError] by (cases sb) simp
  qed
  have "?P (feed_loop B ssl now data (s, b))"
  proof (rule xrs.loop_keeps [of "(s, b)" ?P])
    show "?P (sb_set_parser p sb)" if "?P sb" for p sb using that by (cases sb) simp
  qed (use inv l step fail sess_inv_split [of s] in auto)
  with l show ?thesis by (simp add: feed_def)
qed

lemma linked_events:
  assumes inv: "sess_inv s" and l: "linked binv attached tx_open (s, b)"
  shows "linked binv attached tx_open
     (fold (on_event now) (fst (poll B now b)) s, snd (poll B now b))"
proof -
  let ?es = "fst (poll B now b)" and ?b = "snd (poll B now b)"
  have b: "binv b" "attached b" "tx_link tx_open s b" using l by (simp_all add: linked_def)
  have "tx_open ?b" if "tx_in_flight (fold (on_event now) ?es s)"
    using tx_in_flight_events [OF inv that] complete_not_lost [OF b(1,2)] b(3)
    by (auto simp: tx_link_def)
  moreover have "tx_in_flight (fold (on_event now) ?es s) \<or> phase (fold (on_event now) ?es s) = Closed"
    if "tx_open ?b"
  proof -
    have "\<forall>r. OnTxComplete r \<notin> set ?es" using complete_open [OF b(1)] that by blast
    moreover have "tx_in_flight s \<or> phase s = Closed"
      using poll_opens_none [OF b(1) that] b(3) by (simp add: tx_link_def)
    ultimately show ?thesis
      using tx_in_flight_pending [OF inv] closed_events [OF _ inv] by auto
  qed
  ultimately show ?thesis
    using b by (simp add: linked_def tx_link_def binv_poll attached_poll)
qed

lemma linked_tick:
  assumes inv: "sess_inv s" and l: "linked binv attached tx_open (s, b)"
  shows "linked binv attached tx_open (tick B now (s, b))"
proof -
  have b: "binv b" "attached b" using l by (simp_all add: linked_def)
  let ?b = "abandon_pending_tx B now b"
  have "linked binv attached tx_open (close r s, b)" for r by (rule linked_close [of s binv b attached, OF inv b])
  moreover have "linked binv attached tx_open (close r s, ?b)" for r
    using b by (intro linked_close inv) (simp_all add: binv_abandon attached_abandon)
  moreover have "linked binv attached tx_open (snd (emit MSG_PING 0 None 0 s), b)"
    if "phase s \<noteq> Closed"
    using that l b tx_in_flight_emit [OF inv, of MSG_PING 0 None 0]
    by (auto simp: linked_def tx_link_def)
  ultimately show ?thesis
    using l by (auto simp: tick_def Let_def split_beta linked_def tx_link_def)
qed

lemma linked_read_loop:
  assumes "sess_inv (session (fst cb))"
    and "linked binv attached tx_open (session (fst cb), snd cb)"
  shows "linked binv attached tx_open
     (session (fst (read_loop B ssl now cb)), snd (read_loop B ssl now cb))"
  using assms
proof (induction "recv_size (rx_script (conn_sock (fst cb)))" arbitrary: cb rule: less_induct)
  case less
  obtain c b where cb: "cb = (c, b)" by fastforce
  obtain r k where rcv: "recv kConnReadChunk (conn_sock c) = (r, k)" by fastforce
  have IH: "linked binv attached tx_open
      (session (fst (read_loop B ssl now cb')), snd (read_loop B ssl now cb'))"
    if "conn_sock (fst cb') = k" "r \<noteq> Inl EAGAIN" "sess_inv (session (fst cb'))"
      "linked binv attached tx_open (session (fst cb'), snd cb')" for cb'
    using less.hyps [of cb'] that recv_size_dec [OF rcv] by (simp add: cb)
  show ?case
  proof (cases r)
    case (Inl e)
    with less.prems rcv IH [of "(c\<lparr>conn_sock := k\<rparr>, b)"] show ?thesis
      by (cases e) (auto simp: cb read_loop.simps [of _ _ _ c])
  next
    case (Inr bs)
    obtain s' b' where fd: "feed B ssl now bs (session c, b) = (s', b')" by fastforce
    have "linked binv attached tx_open (s', b')" "sess_inv s'"
      using linked_feed [of "session c" b ssl now bs] sess_inv_feed [of "(session c, b)" B ssl now bs]
        less.prems fd by (simp_all add: cb)
    then show ?thesis
      using less.prems Inr rcv fd IH [of "(c\<lparr>conn_sock := k, session := s'\<rparr>, b')"]
      by (auto simp: cb read_loop.simps [of _ _ _ c] Let_def)
  qed
qed

lemma linked_flush:
  "linked binv attached tx_open (session c, b) \<Longrightarrow>
     linked binv attached tx_open (session (flush c), b)"
proof (induction c rule: flush.induct)
  case (1 c)
  obtain r k where send: "send (bb_data (outbox (session c))) (conn_sock c) = (r, k)" by fastforce
  have cons: "linked binv attached tx_open (out_consume n (session c), b)" for n
    using 1(3) by (simp add: linked_def tx_link_def out_consume_def)
  show ?case
  proof (cases r)
    case (Inl e)
    with 1 send show ?thesis by (cases e) (auto simp: flush.simps [of c])
  next
    case (Inr n)
    with 1 send cons show ?thesis by (auto simp: flush.simps [of c])
  qed
qed

lemma linked_open:
  assumes "binv b0" and "\<not> tx_open b0" and "open_connection B now a t max_outbox k b0 = (c, b)"
  shows "linked binv attached tx_open (session c, b)"
proof -
  have "b = start B (set_sink B True b0)" "\<not> tx_in_flight (session c)"
    using assms(3) by (auto simp: open_connection_def open_session_def arm_def Let_def)
  with assms(1,2) show ?thesis
    by (simp add: linked_def tx_link_def binv_start binv_set_sink attached_start attached_set_sink
        tx_open_start tx_open_set_sink)
qed

text \<open>The account and the link to the backend hold throughout the life of a connection.\<close>

lemma link_run_sound:
  assumes "link_run B ssl a b0 cb evs" and "binv b0" and "\<not> tx_open b0"
  shows "conn_trace ssl a evs (fst cb) \<and> linked binv attached tx_open (session (fst cb), snd cb)"
  using assms(1)
proof (induction rule: link_run.induct)
  case (opened k now t max_outbox)
  then show ?case
    using conn_trace_open linked_open [OF assms(2,3)] by (metis prod.collapse)
next
  case (reads cb evs r now)
  then have "sess_inv (session (fst cb))" by (simp add: conn_trace_def)
  with reads conn_trace_read_loop [of "ssl\<lparr>RAND_bytes := r\<rparr>" a evs cb B now]
    linked_read_loop [of cb "ssl\<lparr>RAND_bytes := r\<rparr>" now]
  show ?case by (simp add: service_read_def conn_trace_flush linked_flush)
next
  case (writes c b evs)
  then show ?case by (simp add: service_write_def conn_trace_flush linked_flush)
next
  case (pumps cb evs now)
  obtain c b where cb: "cb = (c, b)" by fastforce
  let ?es = "fst (poll B now b)"
  have inv: "sess_inv (session c)" and l: "linked binv attached tx_open (session c, b)"
    using pumps by (simp_all add: conn_trace_def cb)
  have "conn_trace ssl a (evs @ ?es) (c\<lparr>session := fold (on_event now) ?es (session c)\<rparr>)"
    using pumps l by (intro conn_trace_events) (auto simp: cb linked_def intro: rx_events)
  with linked_events [OF inv l] show ?case
    by (simp add: cb pump_backend_def Let_def split_beta)
next
  case (ticks cb evs now)
  obtain c b where cb: "cb = (c, b)" by fastforce
  have "linked binv attached tx_open (tick B now (session c, b))"
    using ticks by (intro linked_tick) (simp_all add: conn_trace_def cb)
  with ticks conn_trace_tick [of ssl a evs c B now b] show ?case
    by (simp add: cb tick_connection_def Let_def split_beta)
next
  case (kernel c b evs rx tx)
  then show ?case by (auto intro: conn_trace_sock)
qed

end

end
