(* ===== verification/Xr_Server.thy ===== *)
theory Xr_Server
  imports Xr_Link
begin

text \<open>
  The listener and the event loop, \<^verbatim>\<open>src/src/xr/xr_server.{h,cpp}\<close>: at most one client, one
  pass of the loop (\<open>poll_once\<close>), the timeout of the next pass and the loop itself.  The
  backend is the second component of the state.  What the kernel answers during one pass is
  a record; it may depend on the timeout given to \<^verbatim>\<open>poll\<close>.  Each call that reads the clock
  has its own reading.

  The lemmas of the second half are proved for every backend that keeps its contract: every
  connection of the server is one life of \<open>link_run\<close>, and without a client the backend is
  detached and owns no transmission for anybody.
\<close>

subsection \<open>State\<close>

record XrServer =
  srv_auth :: AuthConfig
  srv_to :: Timeouts
  srv_max_outbox :: nat
  listen_fd :: bool
  bound_port :: u16
  conn :: "XrConnection option"
  srv_refused :: nat
  srv_backoffs :: nat
  srv_log :: "string list"

definition new_server :: "AuthConfig \<Rightarrow> Timeouts \<Rightarrow> nat \<Rightarrow> XrServer" where
  "new_server a t max_outbox = \<lparr>srv_auth = a, srv_to = t, srv_max_outbox = max_outbox,
     listen_fd = False, bound_port = 0, conn = None, srv_refused = 0, srv_backoffs = 0,
     srv_log = []\<rparr>"

text \<open>\<^verbatim>\<open>F_GETFL\<close> and \<^verbatim>\<open>F_SETFL\<close> succeed or not.\<close>

definition set_nonblocking :: "bool \<times> bool \<Rightarrow> bool" where
  "set_nonblocking fl = (if \<not> fst fl then False else snd fl)"

text \<open>The results of the system calls of \<^verbatim>\<open>listen\<close>.\<close>

record ListenSys =
  socket_ok :: bool
  inet_pton_ok :: bool
  bind_ok :: bool
  listen_ok :: bool
  fcntl_ok :: "bool \<times> bool"
  sockname :: "u16 option"

definition listen :: "ListenSys \<Rightarrow> XrServer \<Rightarrow> (string + unit) \<times> XrServer" where
  "listen sys sv =
     (if \<not> socket_ok sys then (Inl ''socket() failed'', sv)
      else if \<not> inet_pton_ok sys then (Inl ''invalid bind address'', sv)
      else if \<not> bind_ok sys then (Inl ''bind() failed'', sv)
      else if \<not> listen_ok sys then (Inl ''listen() failed'', sv)
      else if \<not> set_nonblocking (fcntl_ok sys) then (Inl ''fcntl(O_NONBLOCK) failed'', sv)
      else
        let sv = (case sockname sys of Some p \<Rightarrow> sv\<lparr>bound_port := p\<rparr> | None \<Rightarrow> sv)
        in (Inr (), sv\<lparr>listen_fd := True\<rparr>))"

subsection \<open>Accepting\<close>

text \<open>\<^verbatim>\<open>accept\<close>: the errors that mean "nothing now", "out of resources" and the others, or a new
  descriptor with the outcome of making it non-blocking.\<close>

datatype AcceptErrno = AcceptAgain | AcceptExhausted | AcceptOther

datatype AcceptItem = AcceptErr AcceptErrno | Accepted "bool \<times> bool"

text \<open>What the kernel answers during one pass: the result of \<^verbatim>\<open>poll\<close> with the returned events,
  the results of \<^verbatim>\<open>accept\<close>, \<^verbatim>\<open>recv\<close> and \<^verbatim>\<open>send\<close>, of \<^verbatim>\<open>RAND_bytes\<close>, and the clock readings.\<close>

record PollEnv =
  poll_errno :: "Errno option"
  listen_in :: bool
  conn_in :: bool
  conn_out :: bool
  accepts :: "AcceptItem list"
  kernel_rx :: "RecvItem list"
  kernel_tx :: "SendItem list"
  env_rand :: "byte list option"
  now_accept :: u64
  now_read :: u64
  now_poll :: u64
  now_tick :: u64
  now_drop :: u64

primrec try_accept ::
  "'b RadioBackend \<Rightarrow> PollEnv \<Rightarrow> AcceptItem list \<Rightarrow> XrServer \<times> 'b \<Rightarrow> XrServer \<times> 'b" where
  "try_accept B env [] sb = sb"
| "try_accept B env (it # its) sb =
     (let (sv, b) = sb in
      case it of
        AcceptErr AcceptAgain \<Rightarrow> (sv, b)
      | AcceptErr AcceptExhausted \<Rightarrow> (sv\<lparr>srv_backoffs := srv_backoffs sv + 1\<rparr>, b)
      | AcceptErr AcceptOther \<Rightarrow> (sv, b)
      | Accepted fl \<Rightarrow>
          if conn sv \<noteq> None then
            try_accept B env its (sv\<lparr>srv_refused := srv_refused sv + 1\<rparr>, b)
          else if \<not> set_nonblocking fl then
            try_accept B env its (sv\<lparr>srv_refused := srv_refused sv + 1\<rparr>, b)
          else
            let (c, b) = open_connection B (now_accept env) (srv_auth sv) (srv_to sv)
                  (srv_max_outbox sv) \<lparr>rx_script = kernel_rx env, tx_script = kernel_tx env,
                    rx_taken = [], tx_written = []\<rparr> b
            in try_accept B env its
                 (sv\<lparr>conn := Some c, srv_log := srv_log sv @ [''XR client connected'']\<rparr>, b))"

subsection \<open>One pass of the loop\<close>

definition drop_connection_if_finished ::
  "'b RadioBackend \<Rightarrow> u64 \<Rightarrow> XrServer \<times> 'b \<Rightarrow> XrServer \<times> 'b" where
  "drop_connection_if_finished B now sb =
     (let (sv, b) = sb in
      case conn sv of
        None \<Rightarrow> (sv, b)
      | Some c \<Rightarrow>
          if \<not> finished c then (sv, b)
          else
            let why = (if phase (session c) = Closed
                       then close_reason_name (close_reason (session c)) else ''peer closed'')
            in (sv\<lparr>conn := None,
                   srv_log := srv_log sv @ [''XR client disconnected: '' @ why]\<rparr>,
                close_connection B now b))"

text \<open>The kernel's next answers on the client socket.\<close>

definition set_kernel :: "PollEnv \<Rightarrow> XrConnection \<Rightarrow> XrConnection" where
  "set_kernel env c =
     c\<lparr>conn_sock := (conn_sock c)\<lparr>rx_script := kernel_rx env, tx_script := kernel_tx env\<rparr>\<rparr>"

text \<open>Servicing the client descriptor: \<open>POLLOUT\<close> is asked for only with output queued.\<close>

definition service_conn ::
  "'b RadioBackend \<Rightarrow> openssl \<Rightarrow> PollEnv \<Rightarrow> XrConnection \<times> 'b \<Rightarrow> XrConnection \<times> 'b" where
  "service_conn B ssl env cb =
     (let re_in = conn_in env; re_out = (conn_out env \<and> want_write (fst cb));
          (c, b) = (if re_in then service_read B (ssl\<lparr>RAND_bytes := env_rand env\<rparr>) (now_read env) cb
                    else cb)
      in (if re_out then service_write c else c, b))"

definition pump_conn ::
  "'b RadioBackend \<Rightarrow> PollEnv \<Rightarrow> XrConnection \<times> 'b \<Rightarrow> XrConnection \<times> 'b" where
  "pump_conn B env cb =
     (let cb = pump_backend B (now_poll env) cb;
          (c, b) = tick_connection B (now_tick env) cb
      in (service_write c, b))"

definition poll_once ::
  "'b RadioBackend \<Rightarrow> openssl \<Rightarrow> (nat \<Rightarrow> PollEnv) \<Rightarrow> nat \<Rightarrow> XrServer \<times> 'b \<Rightarrow> XrServer \<times> 'b" where
  "poll_once B ssl os timeout_ms sb =
     (let env = os timeout_ms;
          (sv, b) = sb;
          had_conn = (conn sv \<noteq> None);
          sv = sv\<lparr>conn := map_option (set_kernel env) (conn sv)\<rparr>
      in case poll_errno env of
           Some EAGAIN \<Rightarrow> (sv, b)
         | Some EOTHER \<Rightarrow> (sv, b)
         | pr \<Rightarrow>
             let revents = (pr = None);
                 (sv, b) = (if revents \<and> listen_in env then try_accept B env (accepts env) (sv, b)
                            else (sv, b));
                 (sv, b) =
                   (case conn sv of
                      Some c \<Rightarrow>
                        if had_conn \<and> revents then
                          let (c, b) = service_conn B ssl env (c, b) in (sv\<lparr>conn := Some c\<rparr>, b)
                        else (sv, b)
                    | None \<Rightarrow> (sv, b))
             in case conn sv of
                  Some c \<Rightarrow>
                    let (c, b) = pump_conn B env (c, b)
                    in drop_connection_if_finished B (now_drop env) (sv\<lparr>conn := Some c\<rparr>, b)
                | None \<Rightarrow> (sv, snd (poll B (now_poll env) b)))"

subsection \<open>The loop\<close>

definition compute_timeout_ms :: "'b RadioBackend \<Rightarrow> u64 \<Rightarrow> XrServer \<times> 'b \<Rightarrow> nat" where
  "compute_timeout_ms B now sb =
     (let (sv, b) = sb;
          next = backend_next_deadline_ms B b;
          next = (case conn sv of
                    None \<Rightarrow> next
                  | Some c \<Rightarrow>
                      let s = next_deadline_ms (session c) in if s < next then s else next)
      in if next = UINT64_MAX then 100
         else if next \<le> now then 0
         else let d = next - now in if d < 100 then unat d else 100)"

text \<open>\<^verbatim>\<open>run\<close>: a pass for each reading of \<^verbatim>\<open>stop\<close> as false, with the clock reading of the
  timeout and the kernel of each pass.\<close>

primrec run ::
  "'b RadioBackend \<Rightarrow> openssl \<Rightarrow> (u64 \<times> (nat \<Rightarrow> PollEnv)) list \<Rightarrow> XrServer \<times> 'b \<Rightarrow> XrServer \<times> 'b" where
  "run B ssl [] sb = sb"
| "run B ssl (p # ps) sb =
     run B ssl ps (poll_once B ssl (snd p) (compute_timeout_ms B (fst p) sb) sb)"

definition close_server :: "'b RadioBackend \<Rightarrow> u64 \<Rightarrow> XrServer \<times> 'b \<Rightarrow> XrServer \<times> 'b" where
  "close_server B now sb =
     (let (sv, b) = sb;
          b = (case conn sv of None \<Rightarrow> b | Some c \<Rightarrow> close_connection B now b)
      in (sv\<lparr>conn := None, listen_fd := False\<rparr>, b))"


subsection \<open>Accepting leaves a client alone\<close>

lemma try_accept_busy:
  "conn sv = Some c \<Longrightarrow> \<exists>n m. try_accept B env its (sv, b) = (sv\<lparr>srv_refused := n, srv_backoffs := m\<rparr>, b)"
proof (induction its arbitrary: sv)
  case Nil
  show ?case by (intro exI [of _ "srv_refused sv"] exI [of _ "srv_backoffs sv"]) simp
next
  case (Cons it its)
  have same: "\<exists>n m. (sv, b) = (sv\<lparr>srv_refused := n, srv_backoffs := m\<rparr>, b)"
    by (intro exI [of _ "srv_refused sv"] exI [of _ "srv_backoffs sv"]) simp
  have slept: "\<exists>n m. (sv\<lparr>srv_backoffs := k\<rparr>, b) = (sv\<lparr>srv_refused := n, srv_backoffs := m\<rparr>, b)" for k
    by (intro exI [of _ "srv_refused sv"] exI [of _ k]) simp
  from Cons.IH [of "sv\<lparr>srv_refused := srv_refused sv + 1\<rparr>"] Cons.prems same slept show ?case
    by (auto split: AcceptItem.split AcceptErrno.split)
qed

lemma try_accept_idle:
  "conn sv = None \<Longrightarrow> try_accept B env its (sv, b) = (sv', b') \<Longrightarrow>
     srv_auth sv' = srv_auth sv \<and>
     (conn sv' = None \<and> b' = b \<or>
      (\<exists>c k. conn sv' = Some c \<and> rx_taken k = [] \<and> tx_written k = [] \<and>
         (c, b') = open_connection B (now_accept env) (srv_auth sv) (srv_to sv) (srv_max_outbox sv) k b))"
proof (induction its arbitrary: sv)
  case (Cons it its)
  show ?case
  proof (cases it)
    case (AcceptErr e)
    with Cons.prems show ?thesis by (cases e) auto
  next
    case (Accepted fl)
    show ?thesis
    proof (cases "set_nonblocking fl")
      case False
      with Cons.IH [of "sv\<lparr>srv_refused := srv_refused sv + 1\<rparr>"] Cons.prems Accepted show ?thesis
        by simp
    next
      case True
      let ?k = "\<lparr>rx_script = kernel_rx env, tx_script = kernel_tx env, rx_taken = [], tx_written = []\<rparr>"
      obtain c b1 where op: "open_connection B (now_accept env) (srv_auth sv) (srv_to sv)
          (srv_max_outbox sv) ?k b = (c, b1)" by fastforce
      let ?sv = "sv\<lparr>conn := Some c, srv_log := srv_log sv @ [''XR client connected'']\<rparr>"
      obtain n m where "try_accept B env its (?sv, b1) = (?sv\<lparr>srv_refused := n, srv_backoffs := m\<rparr>, b1)"
        using try_accept_busy [of ?sv c B env its b1] by auto
      with Cons.prems Accepted True op
      have "sv' = ?sv\<lparr>srv_refused := n, srv_backoffs := m\<rparr>" "b' = b1" by auto
      with op show ?thesis by (intro conjI disjI2 exI [of _ c] exI [of _ ?k]) auto
    qed
  qed
qed auto

subsection \<open>Timeouts\<close>

text \<open>The timeout of a pass is at most 100 ms and never sleeps past an armed deadline.\<close>

lemma timeout_deadline:
  fixes nxt now :: u64
  assumes "nxt \<noteq> UINT64_MAX"
  shows "unat now + (if nxt = UINT64_MAX then 100 else if nxt \<le> now then 0
     else let d = nxt - now in if d < 100 then unat d else 100) \<le> max (unat now) (unat nxt)"
proof -
  have "unat (nxt - now) = unat nxt - unat now" if "\<not> nxt \<le> now"
    using that by (simp add: unat_sub)
  with assms show ?thesis by (auto simp: Let_def word_le_nat_alt word_less_nat_alt)
qed

lemma compute_timeout_le: "compute_timeout_ms B now sb \<le> 100"
  by (auto simp: compute_timeout_ms_def Let_def split_beta word_less_nat_alt)

lemma compute_timeout_deadline:
  assumes "d = backend_next_deadline_ms B b \<or> (\<exists>c. conn sv = Some c \<and> d = next_deadline_ms (session c))"
    and "d \<noteq> UINT64_MAX"
  shows "unat now + compute_timeout_ms B now (sv, b) \<le> max (unat now) (unat d)"
proof -
  define nxt where "nxt = (case conn sv of None \<Rightarrow> backend_next_deadline_ms B b
    | Some c \<Rightarrow> let s = next_deadline_ms (session c)
        in if s < backend_next_deadline_ms B b then s else backend_next_deadline_ms B b)"
  have le: "nxt \<le> d" using assms(1) by (auto simp: nxt_def Let_def split: option.split)
  then have "nxt \<noteq> UINT64_MAX" using assms(2) less_UINT64_MAX_iff by (metis leD)
  from timeout_deadline [OF this, of now] le show ?thesis
    by (auto simp: compute_timeout_ms_def nxt_def [symmetric] word_le_nat_alt)
qed

subsection \<open>Dropping\<close>

lemma drop_not_finished:
  "conn (fst (drop_connection_if_finished B now (sv, b))) = Some c \<Longrightarrow> \<not> finished c"
  by (auto simp: drop_connection_if_finished_def Let_def split: option.splits if_splits)

text \<open>A socket that failed stays failed, and its connection is dropped at the end of the pass.\<close>

lemma flush_error: "socket_error c \<Longrightarrow> socket_error (flush c)"
proof (induction c rule: flush.induct)
  case (1 c)
  obtain r k where send: "send (bb_data (outbox (session c))) (conn_sock c) = (r, k)" by fastforce
  show ?case
  proof (cases r)
    case (Inl e)
    with 1 send show ?thesis by (cases e) (auto simp: flush.simps [of c])
  next
    case (Inr n)
    with 1 send show ?thesis by (auto simp: flush.simps [of c])
  qed
qed

lemma pump_conn_error: "socket_error (fst cb) \<Longrightarrow> socket_error (fst (pump_conn B env cb))"
  by (simp add: pump_conn_def pump_backend_def tick_connection_def service_write_def Let_def
      split_beta flush_error)

lemma service_conn_eof:
  assumes "conn_in env" and "rx_script (conn_sock c) = [RecvData []]"
  shows "socket_error (fst (service_conn B ssl env (c, b)))"
proof -
  have "socket_error (fst (read_loop B ssl' now (c, b)))" for ssl' now
    using assms(2) by (subst read_loop.simps) (simp add: recv_def)
  then show ?thesis
    using assms(1) by (simp add: service_conn_def service_read_def service_write_def Let_def
        split_beta flush_error)
qed

text \<open>A pass with a client: what the kernel lets happen on its socket, the backend, time, and
  the end of the connection if it is over; newcomers change neither.\<close>

lemma poll_once_client:
  assumes "conn sv = Some c" and "poll_errno (os t) = None"
  shows "\<exists>sv'. poll_once B ssl os t (sv, b) =
     (let (c, b) = pump_conn B (os t) (service_conn B ssl (os t) (set_kernel (os t) c, b))
      in drop_connection_if_finished B (now_drop (os t)) (sv'\<lparr>conn := Some c\<rparr>, b))"
proof -
  let ?sv = "sv\<lparr>conn := Some (set_kernel (os t) c)\<rparr>"
  obtain n m where "try_accept B (os t) (accepts (os t)) (?sv, b) =
      (?sv\<lparr>srv_refused := n, srv_backoffs := m\<rparr>, b)"
    using try_accept_busy [of ?sv "set_kernel (os t) c" B "os t" "accepts (os t)" b] by auto
  with assms show ?thesis
    by (cases "listen_in (os t)")
       (auto simp: poll_once_def Let_def split_beta
          intro: exI [of _ "?sv\<lparr>srv_refused := n, srv_backoffs := m\<rparr>"] exI [of _ ?sv])
qed

lemma poll_once_eof:
  assumes "conn sv = Some c" and "poll_errno (os t) = None" and "conn_in (os t)"
    and "kernel_rx (os t) = [RecvData []]"
  shows "conn (fst (poll_once B ssl os t (sv, b))) = None"
proof -
  let ?cb = "pump_conn B (os t) (service_conn B ssl (os t) (set_kernel (os t) c, b))"
  have "socket_error (fst ?cb)"
    using assms(3,4) by (intro pump_conn_error service_conn_eof) (simp_all add: set_kernel_def)
  then have "finished (fst ?cb)" by (simp add: finished_def)
  with poll_once_client [of sv c os t B ssl b] assms(1,2) show ?thesis
    by (auto simp: split_beta drop_connection_if_finished_def Let_def)
qed

lemma poll_once_not_finished:
  assumes "conn (fst (poll_once B ssl os t (sv, b))) = Some c" and "poll_errno (os t) \<in> {None, Some EINTR}"
  shows "\<not> finished c"
  using assms
  by (auto simp: poll_once_def Let_def split_beta dest!: drop_not_finished split: option.splits if_splits)

subsection \<open>The authentication mode is fixed\<close>

lemma accept_auth: "srv_auth (fst (try_accept B env its (sv, b))) = srv_auth sv"
proof (cases "conn sv")
  case None
  then show ?thesis
    using try_accept_idle [OF None, of B env its b "fst (try_accept B env its (sv, b))"
        "snd (try_accept B env its (sv, b))"] by simp
next
  case (Some c)
  then show ?thesis using try_accept_busy [OF Some, of B env its b] by auto
qed

lemma drop_auth: "srv_auth (fst (drop_connection_if_finished B now sb)) = srv_auth (fst sb)"
  by (simp add: drop_connection_if_finished_def Let_def split_beta split: option.split)

lemma poll_once_auth: "srv_auth (fst (poll_once B ssl os t sb)) = srv_auth (fst sb)"
  by (simp add: poll_once_def Let_def split_beta drop_auth accept_auth split: option.split Errno.split)

lemma run_auth: "srv_auth (fst (run B ssl ps sb)) = srv_auth (fst sb)"
  by (induction ps arbitrary: sb) (simp_all add: poll_once_auth)

subsection \<open>Servers of a backend that keeps the contract\<close>

text \<open>Without a client the backend is detached and no transmission is open; the client there
  is has lived a life that began in such a state of the backend.\<close>

definition served ::
  "'b RadioBackend \<Rightarrow> ('b \<Rightarrow> bool) \<Rightarrow> ('b \<Rightarrow> bool) \<Rightarrow> ('b \<Rightarrow> bool) \<Rightarrow> openssl \<Rightarrow>
     XrServer \<times> 'b \<Rightarrow> bool" where
  "served B binv attached tx_open ssl sb \<longleftrightarrow>
     (case conn (fst sb) of
        None \<Rightarrow> binv (snd sb) \<and> \<not> attached (snd sb) \<and> \<not> tx_open (snd sb)
      | Some c \<Rightarrow> \<exists>b0 evs. binv b0 \<and> \<not> tx_open b0 \<and>
          link_run B ssl (srv_auth (fst sb)) b0 (c, snd sb) evs)"

lemma served_NoneI:
  "conn sv = None \<Longrightarrow> binv b \<Longrightarrow> \<not> attached b \<Longrightarrow> \<not> tx_open b \<Longrightarrow>
     served B binv attached tx_open ssl (sv, b)"
  by (simp add: served_def)

lemma served_SomeI:
  "conn sv = Some c \<Longrightarrow> binv b0 \<Longrightarrow> \<not> tx_open b0 \<Longrightarrow> link_run B ssl (srv_auth sv) b0 (c, b) evs \<Longrightarrow>
     served B binv attached tx_open ssl (sv, b)"
  by (auto simp: served_def)

lemma served_SomeE:
  assumes "served B binv attached tx_open ssl (sv, b)" and "conn sv = Some c"
  obtains b0 evs where "binv b0" "\<not> tx_open b0" "link_run B ssl (srv_auth sv) b0 (c, b) evs"
  using assms by (auto simp: served_def)

lemma link_run_service:
  assumes "link_run B ssl a b0 (c, b) evs" and "rand_ok (env_rand env)"
  shows "link_run B ssl a b0 (service_conn B ssl env (c, b)) evs"
  using link_run.reads [OF assms(1,2)] assms(1)
  by (auto simp: service_conn_def Let_def split_beta intro: link_run.writes)

lemma link_run_pump:
  assumes "link_run B ssl a b0 cb evs"
  shows "\<exists>evs'. link_run B ssl a b0 (pump_conn B env cb) evs'"
proof -
  let ?cb = "tick_connection B (now_tick env) (pump_backend B (now_poll env) cb)"
  obtain evs' where "link_run B ssl a b0 (fst ?cb, snd ?cb) evs'"
    using link_run.ticks [OF link_run.pumps [OF assms]] by auto
  from link_run.writes [OF this] show ?thesis
    by (auto simp: pump_conn_def Let_def split_beta)
qed

context radio_backend
begin

lemma close_connection_idle:
  assumes "binv b"
  shows "binv (close_connection B now b)" "\<not> attached (close_connection B now b)"
    "\<not> tx_open (close_connection B now b)"
  using assms tx_open_stop [of "set_sink B False (abandon_pending_tx B now b)"]
  by (auto simp: close_connection_def Let_def binv_stop binv_set_sink binv_abandon attached_stop
      attached_set_sink tx_open_set_sink abandon_closes)

lemma served_accept:
  assumes "served B binv attached tx_open ssl (sv, b)"
  shows "served B binv attached tx_open ssl (try_accept B env its (sv, b))"
proof (cases "conn sv")
  case None
  obtain sv' b' where r: "try_accept B env its (sv, b) = (sv', b')" by fastforce
  have b: "binv b" "\<not> attached b" "\<not> tx_open b" using assms None by (simp_all add: served_def)
  from try_accept_idle [OF None r] show ?thesis
    using b unfolding r by (auto simp: served_def intro!: exI [of _ b] exI [of _ "[]"] link_run.opened)
next
  case (Some c)
  with try_accept_busy [of sv c B env its b] assms show ?thesis by (fastforce simp: served_def)
qed

lemma served_drop:
  assumes "served B binv attached tx_open ssl (sv, b)"
  shows "served B binv attached tx_open ssl (drop_connection_if_finished B now (sv, b))"
proof (cases "conn sv")
  case None
  with assms show ?thesis by (simp add: drop_connection_if_finished_def)
next
  case (Some c)
  then obtain b0 evs where l: "binv b0" "\<not> tx_open b0" "link_run B ssl (srv_auth sv) b0 (c, b) evs"
    using assms by (auto elim: served_SomeE)
  have "binv b" using link_run_sound [OF l(3,1,2)] by (simp add: linked_def)
  with Some assms close_connection_idle show ?thesis
    by (auto simp: drop_connection_if_finished_def Let_def intro!: served_NoneI)
qed

lemma served_kernel:
  assumes "served B binv attached tx_open ssl (sv, b)"
  shows "served B binv attached tx_open ssl (sv\<lparr>conn := map_option (set_kernel env) (conn sv)\<rparr>, b)"
proof (cases "conn sv")
  case (Some c)
  with assms show ?thesis
    by (auto simp: set_kernel_def intro!: served_SomeI link_run.kernel elim!: served_SomeE)
qed (use assms in \<open>simp add: served_def\<close>)

text \<open>The second half of a pass: with a client the backend is pumped for it, else for nobody.\<close>

lemma served_pump:
  assumes s: "served B binv attached tx_open ssl (sv, b)"
  shows "served B binv attached tx_open ssl
     (case conn sv of
        Some c \<Rightarrow> let (c, b) = pump_conn B env (c, b)
          in drop_connection_if_finished B (now_drop env) (sv\<lparr>conn := Some c\<rparr>, b)
      | None \<Rightarrow> (sv, snd (poll B (now_poll env) b)))"
proof (cases "conn sv")
  case None
  with s have b: "binv b" "\<not> attached b" "\<not> tx_open b" by (simp_all add: served_def)
  with None show ?thesis
    using poll_opens_none [of b] by (auto simp: attached_poll binv_poll intro!: served_NoneI)
next
  case (Some c)
  then obtain b0 evs where l: "binv b0" "\<not> tx_open b0" "link_run B ssl (srv_auth sv) b0 (c, b) evs"
    using s by (auto elim: served_SomeE)
  obtain c' b' where p: "pump_conn B env (c, b) = (c', b')" by fastforce
  obtain evs' where "link_run B ssl (srv_auth sv) b0 (c', b') evs'"
    using link_run_pump [OF l(3), of env] p by auto
  with l have "served B binv attached tx_open ssl (sv\<lparr>conn := Some c'\<rparr>, b')"
    by (intro served_SomeI [of _ c' binv b0 tx_open B ssl _ evs']) auto
  with Some p show ?thesis by (simp add: served_drop)
qed

lemma served_service:
  assumes s: "served B binv attached tx_open ssl (sv, b)" and r: "rand_ok (env_rand env)"
  shows "served B binv attached tx_open ssl
     (case conn sv of
        Some c \<Rightarrow> if go then let (c, b) = service_conn B ssl env (c, b) in (sv\<lparr>conn := Some c\<rparr>, b) else (sv, b)
      | None \<Rightarrow> (sv, b))"
proof (cases "conn sv")
  case (Some c)
  then obtain b0 evs where l: "binv b0" "\<not> tx_open b0" "link_run B ssl (srv_auth sv) b0 (c, b) evs"
    using s by (auto elim: served_SomeE)
  obtain c' b' where p: "service_conn B ssl env (c, b) = (c', b')" by fastforce
  have "link_run B ssl (srv_auth sv) b0 (c', b') evs"
    using link_run_service [OF l(3) r] p by simp
  with l Some p s show ?thesis by (auto intro!: served_SomeI)
qed (use s in simp)

lemma served_poll_once:
  assumes "served B binv attached tx_open ssl sb" and r: "rand_ok (env_rand (os t))"
  shows "served B binv attached tx_open ssl (poll_once B ssl os t sb)"
proof -
  let ?S = "served B binv attached tx_open ssl" and ?env = "os t"
  obtain sv b where sb: "sb = (sv, b)" by fastforce
  let ?sv = "sv\<lparr>conn := map_option (set_kernel ?env) (conn sv)\<rparr>"
  have k: "?S (?sv, b)" using assms(1) by (simp add: sb served_kernel)
  define rev where "rev = (poll_errno ?env = None)"
  define sb1 where "sb1 = (if rev \<and> listen_in ?env then try_accept B ?env (accepts ?env) (?sv, b) else (?sv, b))"
  have s1: "?S sb1" using k by (simp add: sb1_def served_accept)
  define go where "go = (conn sv \<noteq> None \<and> rev)"
  define sb2 where "sb2 = (case conn (fst sb1) of
      Some c \<Rightarrow> if go then let (c, b) = service_conn B ssl ?env (c, snd sb1)
        in ((fst sb1)\<lparr>conn := Some c\<rparr>, b) else (fst sb1, snd sb1)
    | None \<Rightarrow> (fst sb1, snd sb1))"
  have s2: "?S sb2" using served_service [of ssl "fst sb1" "snd sb1" ?env go] s1 r
    unfolding sb2_def by simp
  let ?run = "case conn (fst sb2) of
      Some c \<Rightarrow> let (c, b) = pump_conn B ?env (c, snd sb2)
        in drop_connection_if_finished B (now_drop ?env) ((fst sb2)\<lparr>conn := Some c\<rparr>, b)
    | None \<Rightarrow> (fst sb2, snd (poll B (now_poll ?env) (snd sb2)))"
  have s3: "?S ?run" using served_pump [of ssl "fst sb2" "snd sb2" ?env] s2 by simp
  have "poll_once B ssl os t sb = (?sv, b) \<or> poll_once B ssl os t sb = ?run"
    by (simp add: poll_once_def sb Let_def split_beta sb1_def sb2_def go_def rev_def
        cong: if_cong option.case_cong split: option.split Errno.split)
  with k s3 show ?thesis by auto
qed

lemma served_run:
  assumes "served B binv attached tx_open ssl sb"
    and "\<forall>p \<in> set ps. \<forall>t. rand_ok (env_rand (snd p t))"
  shows "served B binv attached tx_open ssl (run B ssl ps sb)"
  using assms
proof (induction ps arbitrary: sb)
  case (Cons p ps)
  show ?case using Cons.prems by (simp del: split_paired_All) (intro Cons.IH served_poll_once; simp)
qed simp

text \<open>What a client has been sent, and what it has sent, is a run of the abstract server.\<close>

lemma served_client:
  assumes "served B binv attached tx_open ssl (sv, b)" and "conn sv = Some c"
  obtains ios rest where
    "server_run (password_configured (srv_auth sv)) (sess_verify ssl (srv_auth sv)) SHello ios
       (abs_sess (session c))"
    "rx_taken (conn_sock c) = bytes_in ios @ rest"
    "bytes_out ios = tx_written (conn_sock c) @ bb_data (outbox (session c))"
    "sess_inv (session c)" "linked binv attached tx_open (session c, b)"
proof -
  obtain b0 evs where "binv b0" "\<not> tx_open b0" "link_run B ssl (srv_auth sv) b0 (c, b) evs"
    using assms by (rule served_SomeE)
  then have "conn_trace ssl (srv_auth sv) evs c" "linked binv attached tx_open (session c, b)"
    using link_run_sound by fastforce+
  then show thesis using that by (auto simp: conn_trace_def session_trace_def)
qed

lemma run_client:
  assumes "conn sv0 = None" "binv b0" "\<not> attached b0" "\<not> tx_open b0"
    and "\<forall>p \<in> set ps. \<forall>t. rand_ok (env_rand (snd p t))"
    and "run B ssl ps (sv0, b0) = (sv, b)" and "conn sv = Some c"
  obtains ios rest where
    "server_run (password_configured (srv_auth sv0)) (sess_verify ssl (srv_auth sv0)) SHello ios
       (abs_sess (session c))"
    "rx_taken (conn_sock c) = bytes_in ios @ rest"
    "bytes_out ios = tx_written (conn_sock c) @ bb_data (outbox (session c))"
    "sess_inv (session c)" "linked binv attached tx_open (session c, b)"
proof -
  have "served B binv attached tx_open ssl (run B ssl ps (sv0, b0))"
    by (rule served_run [OF served_NoneI assms(5)]) (use assms in auto)
  moreover have "srv_auth sv = srv_auth sv0" using run_auth [of B ssl ps "(sv0, b0)"] assms(6) by simp
  ultimately show thesis using served_client [of ssl sv b c] assms(6,7) that by auto
qed

end

end
