(* ===== verification/Fake_Backend.thy ===== *)
theory Fake_Backend
  imports Xr_Server
begin

text \<open>
  The in-memory backend, \<^verbatim>\<open>src/src/backend/fake_backend.{h,cpp}\<close>: the default backend of
  the executable and the scripted one of the tests.
\<close>

datatype ConfigMode = Exact | Failure | Mismatch

record FakeBackend =
  fk_sink :: bool
  fk_started :: bool
  fk_configured :: bool
  fk_config_mode :: ConfigMode
  fk_forced_effective :: RadioConfig
  fk_config_pending :: bool
  fk_config_token :: u32
  fk_next_token :: u32
  fk_pending_requested :: RadioConfig
  fk_tx_pending :: bool
  fk_submit_count :: nat
  fk_next_tx_outcome :: "TxOutcome option"
  fk_pending_tx_result :: "TxOutcome option"
  fk_stale_completions :: "TxOutcome list"
  fk_rx_queue :: "RxEvent list"
  fk_fail_pending :: bool

definition fake_init :: FakeBackend where
  "fake_init = \<lparr>fk_sink = False, fk_started = False, fk_configured = False,
     fk_config_mode = Exact, fk_forced_effective = zero_config, fk_config_pending = False,
     fk_config_token = 0, fk_next_token = 0, fk_pending_requested = zero_config,
     fk_tx_pending = False, fk_submit_count = 0, fk_next_tx_outcome = None,
     fk_pending_tx_result = None, fk_stale_completions = [], fk_rx_queue = [],
     fk_fail_pending = False\<rparr>"

subsection \<open>Scripting\<close>

definition script_config_failure :: "FakeBackend \<Rightarrow> FakeBackend" where
  "script_config_failure b = b\<lparr>fk_config_mode := Failure\<rparr>"

definition script_config_effective :: "RadioConfig \<Rightarrow> FakeBackend \<Rightarrow> FakeBackend" where
  "script_config_effective eff b = b\<lparr>fk_config_mode := Mismatch, fk_forced_effective := eff\<rparr>"

definition script_config_exact :: "FakeBackend \<Rightarrow> FakeBackend" where
  "script_config_exact b = b\<lparr>fk_config_mode := Exact\<rparr>"

definition script_tx_outcome :: "TxOutcome \<Rightarrow> FakeBackend \<Rightarrow> FakeBackend" where
  "script_tx_outcome r b = b\<lparr>fk_next_tx_outcome := Some r\<rparr>"

definition script_stale_tx_complete :: "TxOutcome \<Rightarrow> FakeBackend \<Rightarrow> FakeBackend" where
  "script_stale_tx_complete r b = b\<lparr>fk_stale_completions := fk_stale_completions b @ [r]\<rparr>"

definition script_rx :: "RxEvent \<Rightarrow> FakeBackend \<Rightarrow> FakeBackend" where
  "script_rx e b = b\<lparr>fk_rx_queue := fk_rx_queue b @ [e]\<rparr>"

definition script_backend_failure :: "FakeBackend \<Rightarrow> FakeBackend" where
  "script_backend_failure b = b\<lparr>fk_fail_pending := True\<rparr>"

subsection \<open>The RadioBackend operations\<close>

definition fake_set_sink :: "bool \<Rightarrow> FakeBackend \<Rightarrow> FakeBackend" where
  "fake_set_sink sink b = b\<lparr>fk_sink := sink\<rparr>"

definition fake_begin_configure :: "u64 \<Rightarrow> RadioConfig \<Rightarrow> FakeBackend \<Rightarrow> u32 \<times> FakeBackend" where
  "fake_begin_configure now requested b =
     (let t = fk_next_token b + 1
      in (t, b\<lparr>fk_config_pending := True, fk_pending_requested := requested,
               fk_next_token := t, fk_config_token := t\<rparr>))"

definition fake_start :: "FakeBackend \<Rightarrow> FakeBackend" where
  "fake_start b = b\<lparr>fk_started := True\<rparr>"

definition fake_stop :: "FakeBackend \<Rightarrow> FakeBackend" where
  "fake_stop b = b\<lparr>fk_started := False\<rparr>"

definition fake_ready :: "FakeBackend \<Rightarrow> bool" where
  "fake_ready b \<longleftrightarrow> fk_started b \<and> fk_configured b"

definition fake_next_deadline_ms :: "FakeBackend \<Rightarrow> u64" where
  "fake_next_deadline_ms b = UINT64_MAX"

definition fake_submit_tx :: "byte list \<Rightarrow> FakeBackend \<Rightarrow> bool \<times> FakeBackend" where
  "fake_submit_tx d b =
     (if \<not> fake_ready b then (False, b)
      else if fk_tx_pending b then (False, b)
      else if length d > unat kMaxLoraPayload then (False, b)
      else (True, b\<lparr>fk_tx_pending := True, fk_submit_count := fk_submit_count b + 1,
        fk_pending_tx_result :=
          Some (case fk_next_tx_outcome b of None \<Rightarrow> Success | Some r \<Rightarrow> r),
        fk_next_tx_outcome := None\<rparr>))"

definition fake_abandon_pending_tx :: "u64 \<Rightarrow> FakeBackend \<Rightarrow> FakeBackend" where
  "fake_abandon_pending_tx now b = b\<lparr>fk_tx_pending := False, fk_pending_tx_result := None\<rparr>"

definition fake_poll :: "u64 \<Rightarrow> FakeBackend \<Rightarrow> SinkEvent list \<times> FakeBackend" where
  "fake_poll now b =
     (if \<not> fk_sink b then ([], b)
      else if fk_config_pending b then
        let (r, cfgd) =
              (case fk_config_mode b of
                 Failure \<Rightarrow> (\<lparr>applied = False, effective = zero_config\<rparr>, False)
               | Mismatch \<Rightarrow> (\<lparr>applied = True, effective = fk_forced_effective b\<rparr>, True)
               | Exact \<Rightarrow> (\<lparr>applied = True, effective = fk_pending_requested b\<rparr>, True))
        in ([OnConfigureComplete (fk_config_token b) r],
            b\<lparr>fk_config_pending := False, fk_configured := cfgd\<rparr>)
      else if fk_fail_pending b then
        ([OnBackendFailure],
         b\<lparr>fk_fail_pending := False, fk_tx_pending := False, fk_pending_tx_result := None\<rparr>)
      else
        let rxs = map OnRx (fk_rx_queue b);
            b = b\<lparr>fk_rx_queue := []\<rparr>;
            (txs, b) =
              (case fk_pending_tx_result b of
                 Some r \<Rightarrow> if fk_tx_pending b
                   then ([OnTxComplete r], b\<lparr>fk_pending_tx_result := None, fk_tx_pending := False\<rparr>)
                   else ([], b)
               | None \<Rightarrow> ([], b));
            stale = map OnTxComplete (fk_stale_completions b)
        in (rxs @ txs @ stale, b\<lparr>fk_stale_completions := []\<rparr>))"

definition fake_vtable :: "FakeBackend RadioBackend" where
  "fake_vtable = \<lparr>set_sink = fake_set_sink, begin_configure = fake_begin_configure,
     start = fake_start, stop = fake_stop, ready = fake_ready,
     backend_next_deadline_ms = fake_next_deadline_ms, submit_tx = fake_submit_tx,
     abandon_pending_tx = fake_abandon_pending_tx, poll = fake_poll\<rparr>"

subsection \<open>The contract\<close>

text \<open>
  A pending transmission has its result armed, scripted packets are well formed, and no
  stale completion is scripted (the tests script one to show that the session ignores it).
\<close>

definition fake_inv :: "FakeBackend \<Rightarrow> bool" where
  "fake_inv b \<longleftrightarrow> (fk_tx_pending b \<longrightarrow> fk_pending_tx_result b \<noteq> None) \<and>
     (\<forall>rx \<in> set (fk_rx_queue b). rx_wf rx) \<and> fk_stale_completions b = []"

definition fake_cfg_open :: "FakeBackend \<Rightarrow> u32 option" where
  "fake_cfg_open b = (if fk_config_pending b then Some (fk_config_token b) else None)"

lemmas fake_defs = fake_set_sink_def fake_begin_configure_def fake_start_def fake_stop_def
  fake_ready_def fake_submit_tx_def fake_abandon_pending_tx_def

lemma fake_vtable_simps [simp]:
  "set_sink fake_vtable = fake_set_sink" "begin_configure fake_vtable = fake_begin_configure"
  "start fake_vtable = fake_start" "stop fake_vtable = fake_stop"
  "ready fake_vtable = fake_ready" "submit_tx fake_vtable = fake_submit_tx"
  "abandon_pending_tx fake_vtable = fake_abandon_pending_tx" "poll fake_vtable = fake_poll"
  "backend_next_deadline_ms fake_vtable = fake_next_deadline_ms"
  by (simp_all add: fake_vtable_def)

interpretation fake: radio_backend fake_vtable fake_inv fk_sink fk_tx_pending fake_cfg_open
  by unfold_locales
     (auto simp: fake_defs fake_poll_def fake_inv_def fake_cfg_open_def Let_def split_beta
        split: ConfigMode.splits option.splits if_splits)

end
