(* ===== verification/Session_Properties.thy ===== *)
theory Session_Properties
  imports Fake_Backend
begin

text \<open>
  Properties of one firmware session, its connection and the event loop, for every radio
  backend \<open>B\<close> unless a contract is named.
\<close>

subsection \<open>Sessions\<close>

text \<open>What can happen to a session after it was opened, at any clock reading.\<close>

datatype session_op =
    Feed openssl u64 "byte list"
  | Event u64 SinkEvent
  | Tick u64
  | Drain nat

fun session_step :: "'b RadioBackend \<Rightarrow> session_op \<Rightarrow> XrSession \<times> 'b \<Rightarrow> XrSession \<times> 'b" where
  "session_step B (Feed ssl now data) sb = feed B ssl now data sb"
| "session_step B (Event now e) sb = map_prod (on_event now e) id sb"
| "session_step B (Tick now) sb = tick B now sb"
| "session_step B (Drain n) sb = map_prod (out_consume n) id sb"

lemma sess_inv_step: "sess_inv (fst sb) \<Longrightarrow> sess_inv (fst (session_step B op sb))"
  by (cases op; cases sb)
     (auto simp: sess_inv_feed sess_inv_on_event sess_inv_tick out_consume_def sess_inv_outbox
        bb.invar_consume sess_invD)

lemma cap_emit [simp]: "bb_cap (outbox (snd (emit ty seq pl len s))) = bb_cap (outbox s)"
  using bb.capacity_append [of "outbox s"] by (auto simp: emit_def Let_def split_beta split: option.split)

lemma cap_simps [simp]:
  "bb_cap (outbox (arm now t r s)) = bb_cap (outbox s)"
  "bb_cap (outbox (handle_hello ssl now f s)) = bb_cap (outbox s)"
  "bb_cap (outbox (handle_auth ssl now f s)) = bb_cap (outbox s)"
  "bb_cap (outbox (fst (handle_configure B now f (s, b)))) = bb_cap (outbox s)"
  "bb_cap (outbox (fst (handle_ready_frame B now f (s, b)))) = bb_cap (outbox s)"
  by (simp_all add: arm_def handle_hello_def handle_auth_def handle_configure_def handle_ready_frame_def
      Let_def split_beta split: option.split)

lemma cap_handle_frame: "bb_cap (outbox (fst (handle_frame B ssl now f sb))) = bb_cap (outbox (fst sb))"
  by (cases sb) (simp add: handle_frame_def split: Phase.split)

lemma cap_step:
  assumes "sess_inv (fst sb)"
  shows "bb_cap (outbox (fst (session_step B op sb))) = bb_cap (outbox (fst sb))"
proof -
  obtain s b where sb: "sb = (s, b)" by fastforce
  have "bb_cap (outbox (fst (feed_loop B ssl now data sb))) = bb_cap (outbox (fst sb))" for ssl now data
    by (rule xrs.loop_keeps [where P = "\<lambda>t. bb_cap (outbox (fst t)) = bb_cap (outbox (fst sb))"])
       (use assms in \<open>auto simp: cap_handle_frame sess_invD\<close>)
  moreover have "bb_cap (outbox (on_event now e s)) = bb_cap (outbox s)" for now e
    by (cases e) (simp_all add: on_rx_def on_tx_complete_def map_and_send_tx_result_def
        on_backend_failure_def on_configure_complete_def enter_ready_def Let_def split_beta)
  moreover have "bb_cap (outbox (fst (tick B now (s, b)))) = bb_cap (outbox s)" for now
    by (simp add: tick_def Let_def split_beta)
  ultimately show ?thesis
    by (cases op) (auto simp: sb feed_def out_consume_def bb.capacity_consume)
qed

text \<open>
  C9.  Whatever arrives, in whatever order and split, an opened session keeps its state
  consistent: a transmission is in flight only when the session is ready and then has a
  sequence number; a handshake deadline is armed exactly in the handshake phases, with the
  reason of its phase; the configuration reported as applied is the requested one; a session
  is closed exactly if it has a reason; queued output and held input stay within their bounds.
\<close>

theorem session_consistent:
  assumes "fold (session_step B) ops (open_session B now (new_session a t cap, b)) = (s, b')"
  shows "(tx_in_flight s \<longrightarrow> phase s = Ready \<and> tx_seq s \<noteq> 0) \<and>
     (deadline_active s \<longleftrightarrow> phase s \<noteq> Ready \<and> phase s \<noteq> Closed) \<and>
     (phase s = WaitHello \<longrightarrow> deadline_reason s = HandshakeTimeout) \<and>
     (phase s = WaitAuth \<longrightarrow> deadline_reason s = AuthTimeout \<and> password_configured (auth s)) \<and>
     (phase s = WaitConfigure \<or> phase s = Configuring \<longrightarrow> deadline_reason s = ConfigTimeout) \<and>
     (phase s = Ready \<longrightarrow> applied_cfg s = requested_cfg s \<and> radioConfigValid (applied_cfg s)) \<and>
     (phase s = Closed \<longleftrightarrow> close_reason s \<noteq> NoReason) \<and>
     out_size s \<le> cap \<and> phave (parser s) \<le> kMaxFrame"
proof -
  let ?sb = "open_session B now (new_session a t cap, b)"
  have "sess_inv (fst (fold (session_step B) ops sb)) \<and>
      bb_cap (outbox (fst (fold (session_step B) ops sb))) = bb_cap (outbox (fst sb))"
    if "sess_inv (fst sb)" for sb
    using that by (induction ops arbitrary: sb) (simp_all add: sess_inv_step cap_step)
  moreover have "sess_inv (fst ?sb)"
    by (rule sess_inv_open) (simp_all add: new_session_def bb_invar_init)
  ultimately have inv: "sess_inv s" and "bb_cap (outbox s) = bb_cap (outbox (fst ?sb))"
    using assms by (metis fst_conv)+
  then have "bb_cap (outbox s) = cap"
    by (simp add: open_session_def new_session_def bb_clear_def bb_init_def)
  with inv show ?thesis
    by (cases "phase s") (auto simp: sess_inv_def bb_invar_def parser_invar_def out_size_def)
qed

theorem session_consistent_witness:
  "let s = fst (fold (session_step fake_vtable) [Tick 4999, Tick 5000]
      (open_session fake_vtable 0 (new_session open_auth default_timeouts 65536, fake_init)))
   in phase s = Closed \<and> close_reason s \<noteq> NoReason \<and> out_size s \<le> 65536"
  using session_consistent [of fake_vtable "[Tick 4999, Tick 5000]" 0 open_auth default_timeouts 65536 fake_init,
      OF prod.collapse [symmetric]]
  by (auto simp: Let_def open_session_def new_session_def arm_def tick_def close_def default_timeouts_def
      fake_start_def)

lemma feed_closed: "phase (fst sb) = Closed \<Longrightarrow> feed B ssl now xs sb = sb"
  by (simp add: feed_def)

lemma feed_append:
  assumes "parser_invar (parser (fst sb))"
  shows "xrs.same (feed B ssl now (xs @ ys) sb) (feed B ssl now ys (feed B ssl now xs sb))"
proof (cases "phase (fst sb) = Closed")
  case True
  then show ?thesis by (simp add: feed_closed)
next
  case live: False
  show ?thesis
  proof (cases "phase (fst (feed_loop B ssl now xs sb)) = Closed")
    case False
    with live xrs.loop_append [of sb B ssl now xs ys] assms show ?thesis by (simp add: feed_def)
  next
    case True
    let ?R = "stream_run xr_deframe (handle_frame B ssl now) (map_prod (close ParserError) id)
      (\<lambda>sb. phase (fst sb) = Closed)"
    let ?h = "parser_held (parser (fst sb))"
    have s: "xrs.same (feed_loop B ssl now zs sb) (fst (?R (?h @ zs) sb))" for zs
      using xrs.loop_spec [of sb B ssl now zs] assms by simp
    have "phase (fst (fst (?R (?h @ xs) sb))) = Closed"
      using xrs.same_halted [OF s [of xs]] True by simp
    then have "?R (?h @ xs @ ys) sb = (fst (?R (?h @ xs) sb), snd (?R (?h @ xs) sb) @ ys)"
      using xrs.stream_run_append [of sb B ssl now "?h @ xs" ys] live by (simp add: Let_def split_beta)
    then have "xrs.same (feed_loop B ssl now (xs @ ys) sb) (feed_loop B ssl now xs sb)"
      using s [of "xs @ ys"] s [of xs] xrs.same_trans xrs.same_sym by (metis fst_conv)
    with live True show ?thesis by (simp add: feed_def)
  qed
qed

lemma feed_chunks:
  assumes "sess_inv (fst sb)" and "chunks \<noteq> []"
  shows "xrs.same (fold (feed B ssl now) chunks sb) (feed B ssl now (concat chunks) sb)"
  using assms
proof (induction chunks arbitrary: sb)
  case (Cons c cs)
  show ?case
  proof (cases "cs = []")
    case False
    have "xrs.same (fold (feed B ssl now) cs (feed B ssl now c sb)) (feed B ssl now (concat cs) (feed B ssl now c sb))"
      using Cons.prems(1) False by (intro Cons.IH sess_inv_feed)
    also have "xrs.same \<dots> (feed B ssl now (c @ concat cs) sb)"
      using feed_append [of sb B ssl now c "concat cs"] sess_invD(2) [OF Cons.prems(1)] xrs.same_sym by blast
    finally (xrs.same_trans) show ?thesis unfolding fold_Cons comp_apply concat.simps .
  next
    case True
    have "fold (feed B ssl now) (c # cs) sb = feed B ssl now (concat (c # cs)) sb" using True by simp
    then show ?thesis by (simp only: xrs.same_refl)
  qed
qed simp

text \<open>
  C10.  How the stream of a client is cut into reads does not matter: feeding it piece by
  piece leaves the same session (but for the parser's array) and the same backend as feeding
  it at once, also when a piece closes the session.
\<close>

theorem feed_pieces:
  assumes "sess_inv s" and "chunks \<noteq> []"
  shows "sb_set_parser p (fold (feed B ssl now) chunks (s, b)) =
     sb_set_parser p (feed B ssl now (concat chunks) (s, b))"
  using feed_chunks [of "(s, b)" chunks B ssl now] assms by (simp add: xrs.same_def)

text \<open>A session just opened with the in-memory backend, for the witnesses.\<close>

definition demo_session :: XrSession where
  "demo_session = fst (open_session fake_vtable 0 (new_session open_auth default_timeouts 65536, fake_init))"

definition demo_ssl :: openssl where
  "demo_ssl = \<lparr>HMAC = (\<lambda>k m. Some (take 32 (k @ m @ replicate 32 0))),
     RAND_bytes = Some (replicate 16 7)\<rparr>"

lemma demo_session_facts:
  "sess_inv demo_session" "phase demo_session = WaitHello" "parser_held (parser demo_session) = []"
proof -
  show "sess_inv demo_session"
    unfolding demo_session_def by (rule sess_inv_open) (simp_all add: new_session_def bb_invar_init)
  show "phase demo_session = WaitHello" "parser_held (parser demo_session) = []"
    by (simp_all add: demo_session_def open_session_def arm_def)
qed

theorem feed_pieces_witness:
  "fst (sb_set_parser parser_init (fold (feed fake_vtable demo_ssl 0) [[0x58], [0x52, 1]] (demo_session, fake_init))) =
     fst (sb_set_parser parser_init (feed fake_vtable demo_ssl 0 [0x58, 0x52, 1] (demo_session, fake_init)))"
  using feed_pieces [OF demo_session_facts(1), of "[[0x58], [0x52, 1]]" parser_init fake_vtable demo_ssl 0 fake_init]
  by simp

lemma feed_frames:
  assumes "sess_inv s" and "phase s \<noteq> Closed" and "parser_held (parser s) = []"
    and "\<And>f. f \<in> set fs \<Longrightarrow> frame_wf f \<and> isKnownType (ftype f)"
    and "concat chunks = concat (map frame_bytes fs)" and "chunks \<noteq> []"
  shows "xrs.same (fold (feed B ssl now) chunks (s, b))
     (run_frames (handle_frame B ssl now) (\<lambda>sb. phase (fst sb) = Closed) fs (s, b))"
proof -
  have "xrs.same (feed_loop B ssl now (concat (map frame_bytes fs)) (s, b))
      (run_frames (handle_frame B ssl now) (\<lambda>sb. phase (fst sb) = Closed) fs (s, b))"
    using assms xr_deframe_frame_bytes
    by (intro xrs.loop_frames) (auto simp: sess_invD xr_deframe_def)
  moreover have "feed B ssl now (concat chunks) (s, b) = feed_loop B ssl now (concat (map frame_bytes fs)) (s, b)"
    using assms(2,5) by (simp add: feed_def)
  ultimately show ?thesis
    using feed_chunks [of "(s, b)" chunks B ssl now] assms(1,6) by (simp add: xrs.same_def)
qed

text \<open>
  C11.  Frames are handled one by one, in the order sent, until one closes the session: any
  cutting of the bytes of well-formed frames has the effect of running the frame handler over
  the frames.
\<close>

theorem feed_runs_frames:
  assumes "sess_inv s" and "phase s \<noteq> Closed" and "parser_held (parser s) = []"
    and "\<And>f. f \<in> set fs \<Longrightarrow> frame_wf f \<and> isKnownType (ftype f)"
    and "concat chunks = concat (map frame_bytes fs)" and "chunks \<noteq> []"
  shows "sb_set_parser p (fold (feed B ssl now) chunks (s, b)) =
     sb_set_parser p (run_frames (handle_frame B ssl now) (\<lambda>sb. phase (fst sb) = Closed) fs (s, b))"
  using feed_frames [OF assms, of B ssl now b] by (simp add: xrs.same_def)

theorem feed_runs_frames_witness:
  "sb_set_parser parser_init (fold (feed fake_vtable demo_ssl 0) [[0x58, 0x52, 1, 1, 0, 1], [0, 0, 1]]
      (demo_session, fake_init)) =
     sb_set_parser parser_init (handle_frame fake_vtable demo_ssl 0 (mk_frame MSG_HELLO 0 [1])
      (demo_session, fake_init))"
  using feed_runs_frames [OF demo_session_facts(1) _ demo_session_facts(3), of "[mk_frame MSG_HELLO 0 [1]]"
      "[[0x58, 0x52, 1, 1, 0, 1], [0, 0, 1]]" parser_init fake_vtable demo_ssl 0 fake_init]
  by (simp add: demo_session_facts(2) isKnownType_def frame_bytes_def put16_def byte16_def)

text \<open>
  C12.  Time: before the session's next deadline a tick does nothing at all, and the first
  tick at or after it either closes the session or sends the keepalive that was due and
  starts waiting for the answer, so the event loop never spins on an expired deadline.
\<close>

theorem tick_at_deadline:
  assumes "sess_inv s"
  shows "(now < next_deadline_ms s \<longrightarrow> tick B now (s, b) = (s, b)) \<and>
     (phase s \<noteq> Closed \<and> next_deadline_ms s \<le> now \<longrightarrow>
        phase (fst (tick B now (s, b))) = Closed \<or>
        \<not> awaiting_pong s \<and> awaiting_pong (fst (tick B now (s, b))) \<and>
        bb_data (outbox (fst (tick B now (s, b)))) = bb_data (outbox s) @ frame_bytes ping)"
proof (intro conjI impI)
  assume "now < next_deadline_ms s"
  then show "tick B now (s, b) = (s, b)" by (rule tick_early)
next
  assume due: "phase s \<noteq> Closed \<and> next_deadline_ms s \<le> now"
  let ?s = "fst (tick B now (s, b))"
  show "phase ?s = Closed \<or> \<not> awaiting_pong s \<and> awaiting_pong ?s \<and>
      bb_data (outbox ?s) = bb_data (outbox s) @ frame_bytes ping"
  proof (cases "phase ?s = Closed")
    case False
    then have w: "\<not> awaiting_pong s" "awaiting_pong ?s"
      using tick_due [OF assms, of now B b] due by auto
    have enc: "encode (Some kMaxFrame) MSG_PING 0 None 0 = Some (frame_bytes ping)"
      by (simp add: encode_def frame_bytes_def ping_def)
    from w False have "tick B now (s, b) = (let (ok, s') = emit MSG_PING 0 None 0 s
        in if \<not> ok then (s', b) else (s'\<lparr>awaiting_pong := True, ping_sent_at := now,
             pong_deadline_at := now + pong_timeout_ms (to s')\<rparr>, b))"
      by (auto simp: tick_def split: if_splits)
    with False w show ?thesis
      by (auto simp: Let_def intro: emit_frame [OF sess_invD(1) [OF assms] enc])
  qed simp
qed

theorem tick_at_deadline_witness:
  "tick fake_vtable 4999 (demo_session, fake_init) = (demo_session, fake_init)"
proof -
  have "next_deadline_ms demo_session = 5000"
    by (simp add: demo_session_def next_deadline_ms_def open_session_def new_session_def arm_def
        default_timeouts_def UINT64_MAX_def)
  then show ?thesis using tick_at_deadline [OF demo_session_facts(1), of 4999 fake_vtable fake_init] by simp
qed

text \<open>
  C13.  A transmission whose result does not come in time: the session closes as uncertain,
  the backend is told to abandon the transmission, and no result is made up, neither then nor
  when the backend's completion arrives afterwards.
\<close>

theorem tx_timeout_uncertain:
  assumes "sess_inv s" and "tx_in_flight s" and "tx_deadline_at s \<le> now"
    and "tick B now (s, b) = (s', b')"
  shows "phase s' = Closed \<and> close_reason s' = TxTimeoutUncertain \<and> outbox s' = outbox s \<and>
     b' = abandon_pending_tx B now b \<and> (\<forall>later es. fold (on_event later) es s' = s')"
proof -
  have "phase s = Ready" "\<not> deadline_active s"
    using assms(1,2) by (auto simp: sess_inv_def)
  then have eq: "s' = close TxTimeoutUncertain s" "b' = abandon_pending_tx B now b"
    using assms(2-4) by (auto simp: tick_def)
  moreover have "sess_inv s'" using eq sess_inv_close [OF assms(1)] by simp
  ultimately show ?thesis
    using closed_events [of s'] \<open>phase s = Ready\<close> by (auto simp: close_def)
qed

definition demo_pending :: XrSession where
  "demo_pending = demo_session\<lparr>phase := Ready, deadline_active := False, config_op_token := 1,
     tx_in_flight := True, tx_seq := 7, tx_deadline_at := 100\<rparr>"

lemma demo_pending_inv: "sess_inv demo_pending"
  using demo_session_facts(1)
  by (auto simp: demo_pending_def sess_inv_def demo_session_def open_session_def arm_def new_session_def
      radioConfigValid_def isBool_def zero_config_def)

theorem tx_timeout_uncertain_witness:
  "tx_in_flight demo_pending \<and>
   close_reason (fst (tick fake_vtable 100 (demo_pending, fake_init))) = TxTimeoutUncertain \<and>
   outbox (fst (tick fake_vtable 100 (demo_pending, fake_init))) = outbox demo_pending"
  using tx_timeout_uncertain [OF demo_pending_inv _ _ prod.collapse [symmetric], of 100 fake_vtable fake_init]
  by (simp add: demo_pending_def)

lemma not_ready_emit [simp]: "phase s \<noteq> Ready \<Longrightarrow> phase (snd (emit ty seq pl len s)) \<noteq> Ready"
  by (auto simp: emit_def Let_def split_beta split: option.splits if_splits)

lemma not_ready_handle_frame:
  assumes "phase (fst sb) \<noteq> Ready"
  shows "phase (fst (handle_frame B ssl now f sb)) \<noteq> Ready"
proof -
  obtain s b where sb: "sb = (s, b)" by fastforce
  have "phase (handle_hello ssl now f s) \<noteq> Ready" "phase (handle_auth ssl now f s) \<noteq> Ready"
    "phase (fst (handle_configure B now f (s, b))) \<noteq> Ready"
    using assms
    by (simp_all add: sb handle_hello_def handle_auth_def handle_configure_def arm_def Let_def split_beta
        split: option.split)
  with assms show ?thesis by (simp add: sb handle_frame_def split: Phase.split)
qed

lemma not_ready_feed:
  assumes "sess_inv s" and "phase s \<noteq> Ready"
  shows "phase (fst (feed B ssl now data (s, b))) \<noteq> Ready"
  unfolding feed_def
  using xrs.loop_keeps [of "(s, b)" "\<lambda>sb. phase (fst sb) \<noteq> Ready" B ssl now data] assms
  by (auto simp: sess_invD not_ready_handle_frame)

text \<open>
  C14.  A session becomes ready only in one way: the backend reports, under the token of the
  running operation, that it applied exactly the requested configuration, and the client is
  then sent that configuration back.  No byte from the client and no passing of time does it.
\<close>

theorem ready_only_by_exact_config:
  assumes "sess_inv s" and "phase s \<noteq> Ready"
  shows "(phase (on_event now e s) = Ready \<longrightarrow>
       phase s = Configuring \<and>
       (\<exists>r. e = OnConfigureComplete (config_op_token s) r \<and> applied r \<and> effective r = requested_cfg s) \<and>
       bb_data (outbox (on_event now e s)) =
         bb_data (outbox s) @ frame_bytes (config_ok (requested_cfg s))) \<and>
     phase (fst (tick B now (s, b))) \<noteq> Ready \<and> phase (fst (feed B ssl now data (s, b))) \<noteq> Ready"
proof (intro conjI impI)
  assume ready: "phase (on_event now e s) = Ready"
  have "\<not> tx_in_flight s" using sess_invD(3) [OF assms(1)] assms(2) by blast
  then obtain t r where e: "e = OnConfigureComplete t r"
    using ready assms(2) by (cases e)
      (auto simp: on_rx_def on_tx_complete_def on_backend_failure_def)
  then have conf: "phase s = Configuring" "t = config_op_token s" "applied r" "effective r = requested_cfg s"
    using ready assms(2) by (auto simp: on_configure_complete_def split: if_splits)
  have enc: "encode (Some kMaxFrame) MSG_CONFIG_RESULT 0 (Some (CFG_OK # pack_config (requested_cfg s)))
      (of_nat (length (CFG_OK # pack_config (requested_cfg s)))) = Some (frame_bytes (config_ok (requested_cfg s)))"
    unfolding config_ok_def pack_config_packConfig by (rule encode_mk_frame) simp_all
  show "phase s = Configuring" using conf by simp
  show "\<exists>r. e = OnConfigureComplete (config_op_token s) r \<and> applied r \<and> effective r = requested_cfg s"
    using conf e by blast
  show "bb_data (outbox (on_event now e s)) = bb_data (outbox s) @ frame_bytes (config_ok (requested_cfg s))"
    by (rule emit_frame [of "s\<lparr>applied_cfg := requested_cfg s\<rparr>", OF _ enc])
       (use ready conf assms e in \<open>auto simp: on_configure_complete_def enter_ready_def Let_def sess_invD
          close_def\<close>)
next
  show "phase (fst (tick B now (s, b))) \<noteq> Ready" using assms(2) by (simp add: tick_def)
  show "phase (fst (feed B ssl now data (s, b))) \<noteq> Ready" using assms by (rule not_ready_feed)
qed

theorem ready_only_by_exact_config_witness:
  "phase (fst (feed fake_vtable demo_ssl 0 [0x58] (demo_session, fake_init))) \<noteq> Ready"
  using ready_only_by_exact_config [OF demo_session_facts(1), of 0 OnBackendFailure fake_vtable fake_init demo_ssl "[0x58]"]
  by (simp add: demo_session_facts(2))

text \<open>
  C15.  The event loop sleeps at most 100 ms, and never past a deadline: neither one of the
  backend nor one of the client's session.
\<close>

theorem poll_timeout_bounded:
  "compute_timeout_ms B now (sv, b) \<le> 100 \<and>
   (\<forall>d. (d = backend_next_deadline_ms B b \<or> (\<exists>c. conn sv = Some c \<and> d = next_deadline_ms (session c))) \<and>
      d \<noteq> UINT64_MAX \<longrightarrow> unat now + compute_timeout_ms B now (sv, b) \<le> max (unat now) (unat d))"
  using compute_timeout_le [of B now "(sv, b)"] compute_timeout_deadline [of _ B b sv now] by blast

definition demo_conn :: XrConnection where
  "demo_conn = \<lparr>conn_sock = \<lparr>rx_script = [], tx_script = [], rx_taken = [], tx_written = []\<rparr>,
     session = demo_session, socket_error = False\<rparr>"

definition demo_server :: XrServer where
  "demo_server = (new_server open_auth default_timeouts 65536)\<lparr>conn := Some demo_conn\<rparr>"

definition demo_env :: "RecvItem list \<Rightarrow> AcceptItem list \<Rightarrow> PollEnv" where
  "demo_env rx acc = \<lparr>poll_errno = None, listen_in = True, conn_in = True, conn_out = False, accepts = acc,
     kernel_rx = rx, kernel_tx = [], env_rand = Some (replicate 16 7), now_accept = 1, now_read = 1,
     now_poll = 1, now_tick = 1, now_drop = 1\<rparr>"

theorem poll_timeout_bounded_witness:
  "compute_timeout_ms fake_vtable 4990 (demo_server, fake_init) \<le> 10"
proof -
  have "next_deadline_ms demo_session = 5000"
    by (simp add: demo_session_def next_deadline_ms_def open_session_def new_session_def arm_def
        default_timeouts_def UINT64_MAX_def)
  then show ?thesis
    using poll_timeout_bounded [of fake_vtable 4990 demo_server fake_init]
    by (auto simp: UINT64_MAX_def demo_server_def demo_conn_def dest!: spec [of _ "5000 :: u64"])
qed



text \<open>
  C17.  The single client is left alone by newcomers: a pass in which any number of others
  connect leaves the client and the backend exactly as a pass in which nobody does.
\<close>

theorem newcomers_are_refused:
  assumes "conn sv = Some c"
  shows "conn (fst (poll_once B ssl os t (sv, b))) =
       conn (fst (poll_once B ssl (os(t := (os t)\<lparr>listen_in := False\<rparr>)) t (sv, b))) \<and>
     snd (poll_once B ssl os t (sv, b)) =
       snd (poll_once B ssl (os(t := (os t)\<lparr>listen_in := False\<rparr>)) t (sv, b))"
proof -
  let ?os = "os(t := (os t)\<lparr>listen_in := False\<rparr>)"
  let ?cb = "pump_conn B (os t) (service_conn B ssl (os t) (set_kernel (os t) c, b))"
  have same: "pump_conn B (?os t) (service_conn B ssl (?os t) (set_kernel (?os t) c, b)) = ?cb"
    by (simp add: pump_conn_def service_conn_def set_kernel_def)
  show ?thesis
  proof (cases "poll_errno (os t)")
    case None
    obtain sv1 where 1: "poll_once B ssl os t (sv, b) =
        drop_connection_if_finished B (now_drop (os t)) (sv1\<lparr>conn := Some (fst ?cb)\<rparr>, snd ?cb)"
      using poll_once_client [of sv c os t B ssl b] assms None by (auto simp: split_beta)
    obtain sv2 where 2: "poll_once B ssl ?os t (sv, b) =
        drop_connection_if_finished B (now_drop (os t)) (sv2\<lparr>conn := Some (fst ?cb)\<rparr>, snd ?cb)"
      using poll_once_client [of sv c ?os t B ssl b] assms None same by (auto simp: split_beta)
    show ?thesis unfolding 1 2 by (simp add: drop_connection_if_finished_def Let_def)
  next
    case (Some e)
    then show ?thesis using assms
      by (cases e) (simp_all add: poll_once_def Let_def split_beta set_kernel_def pump_conn_def
          drop_connection_if_finished_def)
  qed
qed

theorem newcomers_are_refused_witness:
  "conn (fst (poll_once fake_vtable demo_ssl (\<lambda>_. demo_env [] [Accepted (True, True)]) 100 (demo_server, fake_init))) =
   conn (fst (poll_once fake_vtable demo_ssl
     ((\<lambda>_. demo_env [] [Accepted (True, True)])(100 := (demo_env [] [Accepted (True, True)])\<lparr>listen_in := False\<rparr>))
     100 (demo_server, fake_init)))"
  using newcomers_are_refused [of demo_server demo_conn fake_vtable demo_ssl
      "\<lambda>_. demo_env [] [Accepted (True, True)]" 100 fake_init]
  by (simp add: demo_server_def)

text \<open>
  C18.  Output always gets out: if the kernel takes the bytes in any pieces that together
  cover what is queued, one flush writes everything, in order, and leaves the queue empty.
\<close>

theorem flush_drains:
  assumes "bb_invar (outbox (session c))" and "tx_script (conn_sock c) = map SendOk ns"
    and "\<forall>n \<in> set ns. 0 < n" and "out_size (session c) \<le> sum_list ns"
  shows "out_size (session (flush c)) = 0 \<and> socket_error (flush c) = socket_error c \<and>
     tx_written (conn_sock (flush c)) = tx_written (conn_sock c) @ bb_data (outbox (session c))"
  using assms
proof (induction ns arbitrary: c)
  case Nil
  then show ?case by (subst flush.simps, subst flush.simps, subst flush.simps)
      (simp add: out_size_def flip: length_bb_data)
next
  case (Cons n ns)
  show ?case
  proof (cases "out_size (session c) > 0")
    case True
    let ?d = "bb_data (outbox (session c))"
    let ?k = "(conn_sock c)\<lparr>tx_script := map SendOk ns, tx_written := tx_written (conn_sock c) @ take n ?d\<rparr>"
    let ?c = "c\<lparr>conn_sock := ?k, session := out_consume (min n (length ?d)) (session c)\<rparr>"
    have d: "0 < length ?d" using True by (simp add: out_size_def length_bb_data)
    have "send ?d (conn_sock c) = (Inr (min n (length ?d)), ?k)"
      using Cons.prems(2) by (simp add: send_def)
    with True d Cons.prems(3) have step: "flush c = flush ?c" by (subst flush.simps) simp
    have out: "bb_data (outbox (session ?c)) = drop n ?d"
      using bb.contents_consume [OF Cons.prems(1)] by (simp add: out_consume_def min_def)
    have "out_size (session ?c) \<le> sum_list ns"
      using Cons.prems(4) out by (simp add: out_size_def flip: length_bb_data)
    with Cons.IH [of ?c] Cons.prems out show ?thesis
      unfolding step by (simp add: out_consume_def bb.invar_consume)
  next
    case False
    then show ?thesis by (subst flush.simps, subst flush.simps, subst flush.simps)
        (simp add: out_size_def flip: length_bb_data)
  qed
qed

definition demo_output :: XrConnection where
  "demo_output = demo_conn\<lparr>conn_sock := \<lparr>rx_script = [], tx_script = map SendOk [1, 2], rx_taken = [],
     tx_written = []\<rparr>, session := demo_session\<lparr>outbox := snd (bb_append (bb_init 8) [1, 2, 3])\<rparr>\<rparr>"

theorem flush_drains_witness:
  "tx_written (conn_sock (flush demo_output)) = [1, 2, 3] \<and> out_size (session (flush demo_output)) = 0"
proof -
  have o: "outbox (session demo_output) = snd (bb_append (bb_init 8) [1, 2, 3])"
    "tx_script (conn_sock demo_output) = map SendOk [1, 2]" "tx_written (conn_sock demo_output) = []"
    by (simp_all add: demo_output_def)
  have "bb_invar (snd (bb_append (bb_init 8) [1, 2, 3]))" by (rule bb.invar_append [OF bb_invar_init])
  moreover have d: "bb_data (snd (bb_append (bb_init 8) [1, 2, 3])) = [1, 2, 3]" by (simp add: bb_defs)
  ultimately show ?thesis
    using flush_drains [of demo_output "[1, 2]"] by (simp add: o out_size_def flip: length_bb_data)
qed

end
