(* ===== verification/Loraham_Framing.thy ===== *)
theory Loraham_Framing
  imports Stream_Parser Radio_Backend
begin

text \<open>
  The framed DATA protocol of the LoRaHAM daemon,
  \<^verbatim>\<open>src/src/backend/loraham/loraham_protocol.h\<close> and \<^verbatim>\<open>loraham_framing.{h,cpp}\<close>: encoders,
  the bounded streaming parser, the payload decoders, the mapping of transmission statuses
  and the reading of a status line.  Integers on this link are little-endian.
\<close>

subsection \<open>Wire definitions\<close>

definition kFramedHeaderLen :: nat where [simp]: "kFramedHeaderLen = 3"
definition kMaxRfPayload :: u16 where [simp]: "kMaxRfPayload = 255"
definition kRxMetaLen :: nat where [simp]: "kRxMetaLen = 4"
definition kRxPayloadMax :: nat where [simp]: "kRxPayloadMax = kRxMetaLen + unat kMaxRfPayload"
definition kRxFrameMax :: nat where [simp]: "kRxFrameMax = kFramedHeaderLen + kRxPayloadMax"
definition kTxResultPayloadLen :: nat where [simp]: "kTxResultPayloadLen = 4"

definition FRAMED_RX_PACKET :: byte where [simp]: "FRAMED_RX_PACKET = 0x01"
definition FRAMED_TX_PACKET :: byte where [simp]: "FRAMED_TX_PACKET = 0x02"
definition FRAMED_ERROR :: byte where [simp]: "FRAMED_ERROR = 0x03"
definition FRAMED_TX_RESULT :: byte where [simp]: "FRAMED_TX_RESULT = 0x04"

definition TX_STATUS_OK :: byte where [simp]: "TX_STATUS_OK = 0"
definition TX_STATUS_BUSY :: byte where [simp]: "TX_STATUS_BUSY = 1"
definition TX_STATUS_CHANNEL_BUSY :: byte where [simp]: "TX_STATUS_CHANNEL_BUSY = 2"
definition TX_STATUS_RADIO_NOT_READY :: byte where [simp]: "TX_STATUS_RADIO_NOT_READY = 3"
definition TX_STATUS_RADIO_ERROR :: byte where [simp]: "TX_STATUS_RADIO_ERROR = 4"
definition TX_STATUS_INVALID_PACKET :: byte where [simp]: "TX_STATUS_INVALID_PACKET = 5"
definition TX_STATUS_INVALID_BAND :: byte where [simp]: "TX_STATUS_INVALID_BAND = 6"

definition put16le :: "u16 \<Rightarrow> byte list" where
  "put16le v = [byte16 0 v, byte16 8 v]"

definition get16le :: "byte list \<Rightarrow> nat \<Rightarrow> u16" where
  "get16le p off = join16 (p ! (off + 1)) (p ! off)"

lemma length_put16le [simp]: "length (put16le v) = 2"
  by (simp add: put16le_def)

subsection \<open>Encoders\<close>

text \<open>The output buffer is \<open>None\<close> for a null pointer, else its capacity; the result is the
  bytes written, \<open>None\<close> for the return value 0.\<close>

definition encode_tx_packet :: "nat option \<Rightarrow> byte list option \<Rightarrow> u16 \<Rightarrow> byte list option" where
  "encode_tx_packet out rf rf_len =
     (if out = None \<or> rf_len > kMaxRfPayload then None
      else if rf_len > 0 \<and> rf = None then None
      else
        let total = kFramedHeaderLen + unat rf_len in
        if the out < total then None
        else Some ([FRAMED_TX_PACKET] @ put16le rf_len @
          (if rf_len \<noteq> 0 then take (unat rf_len) (the rf) else [])))"

definition encode_rx_packet ::
  "nat option \<Rightarrow> i16 \<Rightarrow> i16 \<Rightarrow> byte list option \<Rightarrow> u16 \<Rightarrow> byte list option" where
  "encode_rx_packet out rssi snr rf rf_len =
     (if out = None \<or> rf_len > kMaxRfPayload then None
      else if rf_len > 0 \<and> rf = None then None
      else
        let plen = of_nat (kRxMetaLen + unat rf_len) :: u16;
            total = kFramedHeaderLen + unat plen in
        if the out < total then None
        else Some ([FRAMED_RX_PACKET] @ put16le plen @ put16le rssi @ put16le snr @
          (if rf_len \<noteq> 0 then take (unat rf_len) (the rf) else [])))"

definition encode_tx_result :: "nat option \<Rightarrow> byte \<Rightarrow> byte \<Rightarrow> u16 \<Rightarrow> byte list option" where
  "encode_tx_result out status flags seq =
     (let total = kFramedHeaderLen + kTxResultPayloadLen in
      if out = None \<or> the out < total then None
      else Some ([FRAMED_TX_RESULT] @ put16le (of_nat kTxResultPayloadLen) @ [status, flags] @
        put16le seq))"

subsection \<open>The streaming parser\<close>

text \<open>A frame carries the \<open>lf_len\<close> bytes of payload that were copied into it.\<close>

record LFrame =
  lf_type :: byte
  lf_len :: u16
  lf_payload :: "byte list"

record LParser =
  lp_buf :: "byte list"
  lp_have :: nat

definition lparser_init :: LParser where
  "lparser_init = \<lparr>lp_buf = replicate kRxFrameMax 0, lp_have = 0\<rparr>"

definition parser_reset :: "LParser \<Rightarrow> LParser" where
  "parser_reset p = p\<lparr>lp_have := 0\<rparr>"

definition lparser_push :: "LParser \<Rightarrow> byte list option \<Rightarrow> nat \<Rightarrow> bool \<times> nat \<times> LParser" where
  "lparser_push p data n =
     (if n = 0 then (True, 0, p)
      else case data of
        None \<Rightarrow> (False, 0, p)
      | Some d \<Rightarrow>
          let space = length (lp_buf p) - lp_have p;
              take' = (if n < space then n else space)
          in if take' \<noteq> 0
             then (True, take', p\<lparr>lp_buf := memcpy (lp_buf p) (lp_have p) d take',
                                  lp_have := lp_have p + take'\<rparr>)
             else (True, 0, p))"

definition lparser_pop :: "LParser \<Rightarrow> (LFrame, unit) PopResult \<times> LParser" where
  "lparser_pop p =
     (if lp_have p < kFramedHeaderLen then (POP_NEED_MORE, p)
      else
        let type = lp_buf p ! 0;
            len = get16le (lp_buf p) 1
        in if type \<noteq> FRAMED_RX_PACKET \<and> type \<noteq> FRAMED_TX_RESULT \<and> type \<noteq> FRAMED_ERROR
           then (POP_ERROR (), p)
           else if unat len > kRxPayloadMax then (POP_ERROR (), p)
           else
             let total = kFramedHeaderLen + unat len in
             if lp_have p < total then (POP_NEED_MORE, p)
             else
               let out = \<lparr>lf_type = type, lf_len = len,
                          lf_payload = take (unat len) (drop kFramedHeaderLen (lp_buf p))\<rparr>;
                   rest = lp_have p - total;
                   buf = (if rest \<noteq> 0 then memcpy (lp_buf p) 0 (drop total (lp_buf p)) rest
                          else lp_buf p)
               in (POP_GOT_FRAME out, p\<lparr>lp_buf := buf, lp_have := rest\<rparr>))"

subsection \<open>Payload decoders\<close>

definition decode_rx :: "LFrame \<Rightarrow> (i16 \<times> i16 \<times> byte list \<times> u16) option" where
  "decode_rx f =
     (if lf_type f \<noteq> FRAMED_RX_PACKET then None
      else if unat (lf_len f) < kRxMetaLen then None
      else
        let n = lf_len f - of_nat kRxMetaLen in
        if n > kMaxRfPayload then None
        else Some (get16le (lf_payload f) 0, get16le (lf_payload f) 2,
          drop kRxMetaLen (lf_payload f), n))"

definition decode_tx_result :: "LFrame \<Rightarrow> (byte \<times> byte \<times> u16) option" where
  "decode_tx_result f =
     (if lf_type f \<noteq> FRAMED_TX_RESULT then None
      else if unat (lf_len f) \<noteq> kTxResultPayloadLen then None
      else Some (lf_payload f ! 0, lf_payload f ! 1, get16le (lf_payload f) 2))"

definition map_tx_status :: "byte \<Rightarrow> TxOutcome" where
  "map_tx_status status =
     (if status = TX_STATUS_OK then Success
      else if status = TX_STATUS_CHANNEL_BUSY then ChannelBusy
      else RadioError)"

definition status_line_radio_ready :: "string \<Rightarrow> bool" where
  "status_line_radio_ready line =
     (case str_find ''RADIO='' line of
        None \<Rightarrow> False
      | Some pos \<Rightarrow>
          let v = pos + length ''RADIO='';
              value = takeWhile (\<lambda>c. c \<notin> {CHR '' '', CHR 0x09, CHR 0x0D, CHR 0x0A}) (drop v line)
          in value = ''READY'')"

subsection \<open>The parser contract\<close>

definition lparser_invar :: "LParser \<Rightarrow> bool" where
  "lparser_invar p \<longleftrightarrow> length (lp_buf p) = kRxFrameMax \<and> lp_have p \<le> kRxFrameMax"

definition lparser_held :: "LParser \<Rightarrow> byte list" where
  "lparser_held p = take (lp_have p) (lp_buf p)"

definition lpush :: "LParser \<Rightarrow> byte list \<Rightarrow> nat \<times> LParser" where
  "lpush p xs = snd (lparser_push p (Some xs) (length xs))"

definition lora_deframe :: "byte list \<Rightarrow> (LFrame, unit) deframed" where
  "lora_deframe xs =
     (if length xs < 3 then NeedMore
      else
        let len = get16le xs 1 in
        if xs ! 0 \<noteq> FRAMED_RX_PACKET \<and> xs ! 0 \<noteq> FRAMED_TX_RESULT \<and> xs ! 0 \<noteq> FRAMED_ERROR
           \<or> unat len > 259 then Bad ()
        else if length xs < 3 + unat len then NeedMore
        else Got \<lparr>lf_type = xs ! 0, lf_len = len, lf_payload = take (unat len) (drop 3 xs)\<rparr>
               (3 + unat len))"

lemma length_lparser_held: "lparser_invar p \<Longrightarrow> length (lparser_held p) = lp_have p"
  by (simp add: lparser_held_def lparser_invar_def)

lemma lparser_invar_simps [simp]:
  "lparser_invar lparser_init" "lparser_invar p \<Longrightarrow> lparser_invar (parser_reset p)"
  by (simp_all add: lparser_invar_def lparser_init_def parser_reset_def)

lemma lparser_held_reset [simp]: "lparser_held (parser_reset p) = []"
  by (simp add: lparser_held_def parser_reset_def)

lemma lpush_eq:
  assumes "lparser_invar p"
  shows "lpush p xs =
     (let n = min (length xs) (262 - lp_have p)
      in (n, if n = 0 then p
             else p\<lparr>lp_buf := memcpy (lp_buf p) (lp_have p) xs n, lp_have := lp_have p + n\<rparr>))"
  using assms by (auto simp: lpush_def lparser_push_def lparser_invar_def Let_def min_def)

lemma lparser_pop_deframe:
  assumes "lparser_invar p"
  shows "lparser_pop p =
     (case lora_deframe (lparser_held p) of
        NeedMore \<Rightarrow> (POP_NEED_MORE, p)
      | Bad e \<Rightarrow> (POP_ERROR e, p)
      | Got f n \<Rightarrow> (POP_GOT_FRAME f,
          p\<lparr>lp_buf := (if lp_have p = n then lp_buf p
                       else memcpy (lp_buf p) 0 (drop n (lp_buf p)) (lp_have p - n)),
            lp_have := lp_have p - n\<rparr>))"
proof (cases "lp_have p < 3")
  case True
  with assms show ?thesis
    by (simp add: lparser_pop_def lora_deframe_def length_lparser_held)
next
  case False
  have nth: "lparser_held p ! i = lp_buf p ! i" if "i < 3" for i
    using that False assms by (simp add: lparser_held_def)
  have g: "get16le (lparser_held p) (Suc 0) = get16le (lp_buf p) (Suc 0)"
    by (simp add: get16le_def nth numeral_2_eq_2 [symmetric])
  have pay: "take n (drop 3 (lparser_held p)) = take n (drop 3 (lp_buf p))" if "3 + n \<le> lp_have p" for n
    using that by (simp add: lparser_held_def drop_take take_take)
  show ?thesis
    using False assms
    by (auto simp: lparser_pop_def lora_deframe_def length_lparser_held nth g pay Let_def)
qed

lemma lora_deframe_got:
  assumes "lora_deframe xs = Got f n"
  shows "n = 3 + unat (lf_len f)" "n \<le> length xs" "length (lf_payload f) = unat (lf_len f)"
    "unat (lf_len f) \<le> 259"
    "lf_type f = FRAMED_RX_PACKET \<or> lf_type f = FRAMED_TX_RESULT \<or> lf_type f = FRAMED_ERROR"
  using assms by (auto simp: lora_deframe_def Let_def split: if_splits)

lemma lora_deframe_append:
  assumes "lora_deframe xs \<noteq> NeedMore"
  shows "lora_deframe (xs @ ys) = lora_deframe xs"
proof -
  have len: "\<not> length xs < 3" using assms by (auto simp: lora_deframe_def)
  then have nth: "(xs @ ys) ! i = xs ! i" if "i < 3" for i
    using that by (simp add: nth_append)
  have g: "get16le (xs @ ys) (Suc 0) = get16le xs (Suc 0)"
    by (simp add: get16le_def nth numeral_2_eq_2 [symmetric])
  have pay: "take n (drop 3 (xs @ ys)) = take n (drop 3 xs)" if "3 + n \<le> length xs" for n
    using that by simp
  show ?thesis
    using len assms unfolding lora_deframe_def Let_def
    by (simp add: nth g pay del: drop_append split del: if_split cong: if_cong)
       (auto simp: pay simp del: drop_append split: if_splits)
qed

interpretation lrp: frame_parser lparser_invar lparser_held 262 lpush lparser_pop lora_deframe
proof unfold_locales
  fix p :: LParser and xs :: "byte list" assume inv: "lparser_invar p"
  then show "fst (lpush p xs) = min (length xs) (262 - length (lparser_held p))"
    by (simp add: lpush_eq length_lparser_held Let_def)
  from inv show "lparser_held (snd (lpush p xs)) = lparser_held p @ take (fst (lpush p xs)) xs"
    by (auto simp: lpush_eq Let_def lparser_held_def lparser_invar_def)
  from inv show "lparser_invar (snd (lpush p xs))"
    by (auto simp: lpush_eq Let_def lparser_invar_def)
next
  fix p :: LParser and f n
  assume inv: "lparser_invar p" and got: "lora_deframe (lparser_held p) = Got f n"
  have n: "n \<le> lp_have p" using lora_deframe_got(2) [OF got] inv by (simp add: length_lparser_held)
  have "take (lp_have p - n) (memcpy (lp_buf p) 0 (drop n (lp_buf p)) (lp_have p - n)) =
      take (lp_have p - n) (drop n (lp_buf p))"
    using take_memcpy [of 0 "lp_have p - n" "lp_buf p" "drop n (lp_buf p)"] inv n
    by (auto simp: lparser_invar_def)
  with n got inv show "fst (lparser_pop p) = POP_GOT_FRAME f \<and>
      lparser_held (snd (lparser_pop p)) = drop n (lparser_held p)"
    by (simp add: lparser_pop_deframe lparser_held_def drop_take)
next
  fix p :: LParser assume inv: "lparser_invar p"
  show "lparser_invar (snd (lparser_pop p))"
  proof (cases "lora_deframe (lparser_held p)")
    case (Got f n)
    then show ?thesis
      using inv lora_deframe_got(2) [OF Got]
      by (simp add: lparser_pop_deframe length_lparser_held) (auto simp: lparser_invar_def)
  qed (simp_all add: lparser_pop_deframe inv)
next
  fix xs ys :: "byte list" and f n assume got: "lora_deframe xs = Got f n"
  show "0 < n \<and> n \<le> length xs" using lora_deframe_got(1,2) [OF got] by simp
  from got show "lora_deframe (xs @ ys) = Got f n" by (simp add: lora_deframe_append)
next
  fix xs ys :: "byte list" and e assume "lora_deframe xs = Bad e"
  then show "lora_deframe (xs @ ys) = Bad e" by (simp add: lora_deframe_append)
next
  fix xs :: "byte list" assume "262 \<le> length xs"
  then show "lora_deframe xs \<noteq> NeedMore"
    by (auto simp: lora_deframe_def Let_def)
qed (simp_all add: lparser_pop_deframe length_lparser_held, simp add: lparser_invar_def)

end
