(* ===== verification/Loraham_Config.thy ===== *)
theory Loraham_Config
  imports Xr_Protocol
begin

text \<open>
  Translation of a requested radio configuration into a command of the daemon's CONF socket,
  \<^verbatim>\<open>src/src/backend/loraham/loraham_config.{h,cpp}\<close>: the bands the daemon serves, its table of
  bandwidths, the validation against its limits and the \<^verbatim>\<open>SET\<close> line.
\<close>

datatype Band = Band433 | Band868

datatype ConfigError =
    Ok | FrequencyOutOfBand | BandwidthUnsupported | SpreadingFactor | CodingRate | SyncWord
  | Preamble | Power | Crc | Ldro

fun config_error_name :: "ConfigError \<Rightarrow> string" where
  "config_error_name Ok = ''OK''"
| "config_error_name FrequencyOutOfBand = ''FREQUENCY_OUT_OF_BAND''"
| "config_error_name BandwidthUnsupported = ''BANDWIDTH_UNSUPPORTED''"
| "config_error_name SpreadingFactor = ''SPREADING_FACTOR''"
| "config_error_name CodingRate = ''CODING_RATE''"
| "config_error_name SyncWord = ''SYNC_WORD''"
| "config_error_name Preamble = ''PREAMBLE''"
| "config_error_name Power = ''POWER''"
| "config_error_name Crc = ''CRC''"
| "config_error_name Ldro = ''LDRO''"

definition k433Lo :: u32 where [simp]: "k433Lo = 137000000"
definition k433Hi :: u32 where [simp]: "k433Hi = 525000000"
definition k868Lo :: u32 where [simp]: "k868Lo = 779000000"
definition k868Hi :: u32 where [simp]: "k868Hi = 960000000"

definition kBwTable :: "(u32 \<times> string) list" where
  "kBwTable = [(7800, ''7.8''), (10400, ''10.4''), (15600, ''15.6''), (20800, ''20.8''),
     (31250, ''31.25''), (41700, ''41.7''), (62500, ''62.5''), (125000, ''125''),
     (250000, ''250''), (500000, ''500'')]"

definition select_band :: "u32 \<Rightarrow> Band option" where
  "select_band f =
     (if f \<ge> k433Lo \<and> f \<le> k433Hi then Some Band433
      else if f \<ge> k868Lo \<and> f \<le> k868Hi then Some Band868
      else None)"

definition bandwidth_token :: "u32 \<Rightarrow> string option" where
  "bandwidth_token bw = map_of kBwTable bw"

text \<open>The error and, on \<^verbatim>\<open>Ok\<close>, the selected band.\<close>

definition validate_config :: "RadioConfig \<Rightarrow> ConfigError \<times> Band option" where
  "validate_config cfg =
     (case select_band (freq_hz cfg) of
        None \<Rightarrow> (FrequencyOutOfBand, None)
      | Some band \<Rightarrow>
          if bandwidth_token (bw_hz cfg) = None then (BandwidthUnsupported, None)
          else if sf cfg < 7 \<or> sf cfg > 12 then (SpreadingFactor, None)
          else if cr_denom cfg < 5 \<or> cr_denom cfg > 8 then (CodingRate, None)
          else if sync_word cfg > 0xFF then (SyncWord, None)
          else if preamble cfg < 6 then (Preamble, None)
          else if sint (tx_power_dbm cfg) < 0 \<or> sint (tx_power_dbm cfg) > 20 then (Power, None)
          else if crc cfg > 1 then (Crc, None)
          else if ldro cfg > 1 then (Ldro, None)
          else (Ok, Some band))"

subsection \<open>Formatting\<close>

text \<open>
  \<^verbatim>\<open>%.6f\<close> of \<^verbatim>\<open>freq_hz / 1000000.0\<close>.  The quotient of a 32-bit integer is within \<open>10\<^sup>-\<^sup>1\<^sup>2\<close> of
  the real quotient, whose sixth decimal is its last, so rounding to six decimals gives the
  digits of the integer with the point before the last six.
\<close>

definition digits6 :: "nat \<Rightarrow> string" where
  "digits6 n = map (\<lambda>k. char_of (48 + n div 10 ^ k mod 10)) [5, 4, 3, 2, 1, 0]"

definition show_mhz :: "nat \<Rightarrow> string" where
  "show_mhz hz = show_nat (hz div 1000000) @ ''.'' @ digits6 (hz mod 1000000)"

definition hex_digit :: "nat \<Rightarrow> char" where
  "hex_digit n = ''0123456789ABCDEF'' ! n"

text \<open>\<^verbatim>\<open>%02X\<close> of a byte.\<close>

definition show_hex2 :: "nat \<Rightarrow> string" where
  "show_hex2 n = [hex_digit (n div 16), hex_digit (n mod 16)]"

text \<open>\<^verbatim>\<open>%d\<close>.\<close>

definition show_int :: "int \<Rightarrow> string" where
  "show_int i = (if i < 0 then ''-'' @ show_nat (nat (- i)) else show_nat (nat i))"

definition set_line :: "RadioConfig \<Rightarrow> string \<Rightarrow> string" where
  "set_line cfg bw =
     ''SET MODE=LORA FREQ='' @ show_mhz (unat (freq_hz cfg)) @ '' BW='' @ bw @
     '' SF='' @ show_nat (unat (sf cfg)) @ '' CR='' @ show_nat (unat (cr_denom cfg)) @
     '' CRC='' @ show_nat (unat (crc cfg)) @ '' PREAMBLE='' @ show_nat (unat (preamble cfg)) @
     '' SYNC=0x'' @ show_hex2 (unat (sync_word cfg AND 0xFF)) @
     '' LDRO='' @ show_nat (unat (ldro cfg)) @
     '' POWER='' @ show_int (sint (tx_power_dbm cfg)) @ [CHR 0x0A]"

definition build_set_command :: "RadioConfig \<Rightarrow> string option" where
  "build_set_command cfg =
     (if fst (validate_config cfg) \<noteq> Ok then None
      else
        let bw = (case bandwidth_token (bw_hz cfg) of None \<Rightarrow> [] | Some t \<Rightarrow> t);
            buf = set_line cfg bw
        in if length buf \<le> 0 \<or> length buf \<ge> 256 then None else Some buf)"

subsection \<open>Validation\<close>

lemma validate_config_Ok:
  "fst (validate_config c) = Ok \<longleftrightarrow>
     (137000000 \<le> freq_hz c \<and> freq_hz c \<le> 525000000 \<or>
      779000000 \<le> freq_hz c \<and> freq_hz c \<le> 960000000) \<and>
     bw_hz c \<in> fst ` set kBwTable \<and> 7 \<le> sf c \<and> sf c \<le> 12 \<and> 5 \<le> cr_denom c \<and> cr_denom c \<le> 8 \<and>
     sync_word c \<le> 0xFF \<and> 6 \<le> preamble c \<and> 0 \<le> sint (tx_power_dbm c) \<and>
     sint (tx_power_dbm c) \<le> 20 \<and> crc c \<le> 1 \<and> ldro c \<le> 1"
  by (auto simp: validate_config_def select_band_def bandwidth_token_def map_of_eq_None_iff
      not_less not_le split: option.splits)

lemma validate_config_band:
  "validate_config c = (Ok, band) \<Longrightarrow> \<exists>b. band = Some b \<and> select_band (freq_hz c) = Some b"
  by (auto simp: validate_config_def split: option.splits if_splits)

subsection \<open>Formatted fields\<close>

lemma length_show_word8: "length (show_nat (unat (w :: byte))) \<le> 3"
proof -
  have "unat w < 2 ^ LENGTH(8)" by (rule unsigned_less)
  then show ?thesis using length_show_nat [of "unat w" 2] by simp
qed

lemma length_show_word16: "length (show_nat (unat (w :: u16))) \<le> 5"
proof -
  have "unat w < 2 ^ LENGTH(16)" by (rule unsigned_less)
  then show ?thesis using length_show_nat [of "unat w" 4] by simp
qed

lemma length_show_mhz: "length (show_mhz (unat (w :: u32))) \<le> 11"
proof -
  have "unat w < 2 ^ LENGTH(32)" by (rule unsigned_less)
  then have "unat w div 1000000 < 10 ^ Suc 3" by simp
  then have "length (show_nat (unat w div 1000000)) \<le> 4" using length_show_nat by fastforce
  then show ?thesis by (simp add: show_mhz_def digits6_def)
qed

lemma length_show_int8: "length (show_int (sint (w :: i8))) \<le> 4"
proof -
  have "nat (sint w) < 10 ^ Suc 2" "nat (- sint w) < 10 ^ Suc 2"
    using sint_greater_eq [of w] sint_less [of w] by simp_all
  then have "length (show_nat (nat (sint w))) \<le> 3" "length (show_nat (nat (- sint w))) \<le> 3"
    using length_show_nat by fastforce+
  then show ?thesis by (simp add: show_int_def)
qed

lemma length_bandwidth_token: "bandwidth_token bw = Some t \<Longrightarrow> length t \<le> 5"
  by (auto simp: bandwidth_token_def kBwTable_def split: if_splits)

lemma length_set_line: "bandwidth_token (bw_hz c) = Some t \<Longrightarrow> length (set_line c t) < 256"
  using length_show_mhz [of "freq_hz c"] length_bandwidth_token [of "bw_hz c" t]
    length_show_word8 [of "sf c"] length_show_word8 [of "cr_denom c"] length_show_word8 [of "crc c"]
    length_show_word8 [of "ldro c"] length_show_word16 [of "preamble c"]
    length_show_int8 [of "tx_power_dbm c"]
  by (simp add: set_line_def show_hex2_def)

text \<open>The buffer of \<^verbatim>\<open>build_set_command\<close> is always large enough.\<close>

lemma build_set_command_eq:
  "build_set_command c =
     (if fst (validate_config c) = Ok then Some (set_line c (the (bandwidth_token (bw_hz c)))) else None)"
proof (cases "fst (validate_config c) = Ok")
  case True
  then obtain t where t: "bandwidth_token (bw_hz c) = Some t"
    by (auto simp: validate_config_def split: option.splits if_splits)
  have "set_line c t \<noteq> []" by (simp add: set_line_def)
  with True t length_set_line [OF t] show ?thesis by (simp add: build_set_command_def)
qed (simp add: build_set_command_def)

subsection \<open>The line determines the configuration\<close>

lemma show_nat_no: "\<not> is_digit c \<Longrightarrow> c \<notin> set (show_nat n)"
  using show_nat_digits by blast

lemma separators_no_digit [simp]: "\<not> is_digit CHR '' ''" "\<not> is_digit CHR ''.''" "\<not> is_digit CHR 0x0A"
  by (simp_all add: is_digit_def)

lemma mod_step: "(n :: nat) mod 10 ^ Suc k = n mod 10 ^ k + 10 ^ k * (n div 10 ^ k mod 10)"
  using mod_mult2_eq [of n "10 ^ k" 10] by (simp add: mult.commute)

lemma digits6_inject:
  assumes "digits6 m = digits6 n" and "m < 1000000" and "n < 1000000"
  shows "m = n"
proof -
  have d: "m div 10 ^ k mod 10 = n div 10 ^ k mod 10" if "k \<in> set [5, 4, 3, 2, 1, 0]" for k
  proof -
    have "char_of (48 + m div 10 ^ k mod 10) = (char_of (48 + n div 10 ^ k mod 10) :: char)"
      using assms(1) that unfolding digits6_def map_eq_conv by blast
    then have "(of_char (char_of (48 + m div 10 ^ k mod 10) :: char) :: nat) =
        of_char (char_of (48 + n div 10 ^ k mod 10) :: char)" by simp
    then show ?thesis by simp
  qed
  have "m mod 10 ^ k = n mod 10 ^ k" if "k \<le> 6" for k
    using that
  proof (induction k)
    case (Suc k)
    then have "k \<in> set [5, 4, 3, 2, 1, 0]" by auto
    from d [OF this] Suc show ?case by (simp only: mod_step)
  qed simp
  from this [of 6] assms(2,3) show ?thesis by simp
qed

lemma digits6_no: "\<not> is_digit c \<Longrightarrow> c \<notin> set (digits6 n)"
proof -
  have "is_digit (char_of (48 + x mod 10))" for x :: nat
    by (simp add: is_digit_def)
  then show "\<not> is_digit c \<Longrightarrow> c \<notin> set (digits6 n)"
    unfolding digits6_def set_map by blast
qed

lemma show_mhz_inject: "show_mhz m = show_mhz n \<longleftrightarrow> m = n"
proof
  assume "show_mhz m = show_mhz n"
  then have "show_nat (m div 1000000) @ CHR ''.'' # digits6 (m mod 1000000) =
      show_nat (n div 1000000) @ CHR ''.'' # digits6 (n mod 1000000)"
    by (simp add: show_mhz_def)
  from field_eq [OF this] have eq: "m div 1000000 = n div 1000000"
    "digits6 (m mod 1000000) = digits6 (n mod 1000000)"
    by (simp_all add: show_nat_no)
  from digits6_inject [OF eq(2)] have "m mod 1000000 = n mod 1000000" by simp
  with eq(1) show "m = n" by (metis div_mult_mod_eq)
qed simp

lemma show_hex2_inject:
  assumes "show_hex2 m = show_hex2 n" and "m < 256" and "n < 256"
  shows "m = n"
proof -
  have d: "distinct ''0123456789ABCDEF''" by simp
  have inj: "hex_digit i = hex_digit j \<Longrightarrow> i < 16 \<Longrightarrow> j < 16 \<Longrightarrow> i = j" for i j
    using nth_eq_iff_index_eq [OF d, of i j] by (simp add: hex_digit_def)
  have "m div 16 = n div 16" "m mod 16 = n mod 16"
    using assms inj by (simp_all add: show_hex2_def less_mult_imp_div_less)
  then show ?thesis by (metis div_mult_mod_eq)
qed

lemma bandwidth_token_Some:
  "bandwidth_token b = Some t \<longleftrightarrow> (b, t) \<in> set kBwTable"
proof -
  have "distinct (map fst kBwTable)" by (simp add: kBwTable_def)
  then show ?thesis by (simp add: bandwidth_token_def map_of_eq_Some_iff)
qed

lemma bandwidth_token_inject:
  assumes "bandwidth_token b = Some t" and "bandwidth_token b' = Some t"
  shows "b = b'"
proof -
  have "distinct (map snd kBwTable)" by (simp add: kBwTable_def)
  then have "inj_on snd (set kBwTable)" by (simp only: distinct_map)
  from inj_onD [OF this, of "(b, t)" "(b', t)"] assms show ?thesis
    by (simp add: bandwidth_token_Some)
qed

lemma bandwidth_token_no: "bandwidth_token b = Some t \<Longrightarrow> CHR '' '' \<notin> set t"
proof -
  have "list_all (\<lambda>(b, t). CHR '' '' \<notin> set t) kBwTable" by (simp add: kBwTable_def)
  then show "bandwidth_token b = Some t \<Longrightarrow> CHR '' '' \<notin> set t"
    unfolding bandwidth_token_Some list_all_iff by auto
qed

lemma show_mhz_no: "CHR '' '' \<notin> set (show_mhz n)"
  by (simp add: show_mhz_def show_nat_no digits6_no)

lemma show_hex2_no: "n < 256 \<Longrightarrow> CHR '' '' \<notin> set (show_hex2 n)"
proof -
  have "CHR '' '' \<noteq> hex_digit i" if "i < 16" for i
  proof -
    have "hex_digit i \<in> set ''0123456789ABCDEF''"
      using that by (simp only: hex_digit_def) (rule nth_mem, simp)
    then show ?thesis by auto
  qed
  then show "n < 256 \<Longrightarrow> CHR '' '' \<notin> set (show_hex2 n)"
    by (simp add: show_hex2_def less_mult_imp_div_less)
qed

lemma set_line_inject:
  assumes line: "set_line c t = set_line c' t'"
    and t: "bandwidth_token (bw_hz c) = Some t" and t': "bandwidth_token (bw_hz c') = Some t'"
    and sy: "sync_word c \<le> 0xFF" "sync_word c' \<le> 0xFF"
    and pw: "0 \<le> sint (tx_power_dbm c)" "0 \<le> sint (tx_power_dbm c')"
  shows "c = c'"
proof -
  have sy255: "unat (w AND 255) = unat w" "unat w < 256" if "w \<le> 255" for w :: u16
  proof -
    show lt: "unat w < 256" using that by (simp add: word_le_nat_alt)
    have "w AND 255 = take_bit 8 w" by (simp add: take_bit_eq_mask mask_eq_exp_minus_1)
    then have "unat (w AND 255) = unat w mod 256"
      by (simp only: unsigned_take_bit_eq) (simp add: take_bit_eq_mod)
    with lt show "unat (w AND 255) = unat w" by simp
  qed
  have si: "show_int (sint (tx_power_dbm c)) = show_nat (nat (sint (tx_power_dbm c)))"
    "show_int (sint (tx_power_dbm c')) = show_nat (nat (sint (tx_power_dbm c')))"
    using pw by (simp_all add: show_int_def)
  note no = show_nat_no [of "CHR '' ''"] show_mhz_no show_hex2_no
    bandwidth_token_no [OF t] bandwidth_token_no [OF t'] sy255 sy pw
  from line have
    "freq_hz c = freq_hz c'" "t = t'" "sf c = sf c'" "cr_denom c = cr_denom c'" "crc c = crc c'"
    "preamble c = preamble c'" "show_hex2 (unat (sync_word c)) = show_hex2 (unat (sync_word c'))"
    "ldro c = ldro c'" "nat (sint (tx_power_dbm c)) = nat (sint (tx_power_dbm c'))"
    by (simp_all add: set_line_def no field_iff show_mhz_inject si word_unat_eq_iff)
  moreover from this have "bw_hz c = bw_hz c'" "sync_word c = sync_word c'"
    using bandwidth_token_inject [OF t] t'
      show_hex2_inject [of "unat (sync_word c)" "unat (sync_word c')"] sy255(2) [OF sy(1)]
      sy255(2) [OF sy(2)]
    by (simp_all add: word_unat_eq_iff)
  moreover have "tx_power_dbm c = tx_power_dbm c'"
  proof (rule signed_word_eqI)
    show "sint (tx_power_dbm c) = sint (tx_power_dbm c')" using calculation(9) pw by simp
  qed
  ultimately show ?thesis by simp
qed

end
