(* ===== verification/Loraham_Transport.thy ===== *)
theory Loraham_Transport
  imports Loraham_Config Posix_Socket
begin

text \<open>
  The two-socket link to the LoRaHAM daemon,
  \<^verbatim>\<open>src/src/backend/loraham/loraham_transport.h\<close> and \<^verbatim>\<open>loraham_posix_transport.{h,cpp}\<close>.  A
  socket is present while its descriptor is not negative.  The outcomes of the next connects
  and of the next readiness checks are scripts, as those of \<^verbatim>\<open>recv\<close> and \<^verbatim>\<open>send\<close> are.
\<close>

datatype ConnectState = ConnConnecting | ConnConnected | ConnFailed

record DaemonPaths =
  data433 :: string
  conf433 :: string
  data868 :: string
  conf868 :: string

text \<open>What \<^verbatim>\<open>socket\<close>, \<^verbatim>\<open>fcntl\<close> and \<^verbatim>\<open>connect\<close> do for one new socket: it is connected at once,
  its connect is in progress, or one of the calls fails.\<close>

datatype ConnectItem = ConnNow Socket | ConnLater Socket | ConnRefused

text \<open>What \<^verbatim>\<open>poll\<close> and \<^verbatim>\<open>getsockopt(SO_ERROR)\<close> say of a socket whose connect is in progress.\<close>

datatype ReadyItem = NotWritable | PollError | SockoptFailed | SoError | Writable

record PosixDaemonTransport =
  paths :: DaemonPaths
  data_fd :: "Socket option"
  conf_fd :: "Socket option"
  data_connecting :: bool
  conf_connecting :: bool
  connect_script :: "ConnectItem list"
  ready_script :: "ReadyItem list"

subsection \<open>Paths\<close>

definition kSunPath :: nat where
  [simp]: "kSunPath = 108"

text \<open>\<open>sock p\<close>: the file \<open>p\<close> exists and is a socket.\<close>

definition loraham_sockpath :: "(string \<Rightarrow> bool) \<Rightarrow> string \<Rightarrow> string \<Rightarrow> string" where
  "loraham_sockpath sock runp tmpp = (if sock runp then runp else tmpp)"

definition default_daemon_paths :: "(string \<Rightarrow> bool) \<Rightarrow> DaemonPaths" where
  "default_daemon_paths sock =
     \<lparr>data433 = loraham_sockpath sock ''/run/loraham/lora433f.sock'' ''/tmp/lora433f.sock'',
      conf433 = loraham_sockpath sock ''/run/loraham/loraconf433.sock'' ''/tmp/loraconf433.sock'',
      data868 = loraham_sockpath sock ''/run/loraham/lora868f.sock'' ''/tmp/lora868f.sock'',
      conf868 = loraham_sockpath sock ''/run/loraham/loraconf868.sock'' ''/tmp/loraconf868.sock''\<rparr>"

definition instance_daemon_paths :: "(string \<Rightarrow> bool) \<Rightarrow> string \<Rightarrow> string \<Rightarrow> DaemonPaths" where
  "instance_daemon_paths sock data_socket conf_socket =
     (let p = default_daemon_paths sock in
      if data_socket = [] \<or> conf_socket = [] then p
      else p\<lparr>data433 := data_socket, data868 := data_socket,
             conf433 := conf_socket, conf868 := conf_socket\<rparr>)"

definition socket_path_error :: "string \<Rightarrow> string" where
  "socket_path_error path =
     (if path = [] then ''is empty''
      else if length path \<ge> kSunPath then
        ''is '' @ show_nat (length path) @ '' bytes; a socket path must be shorter than '' @
        show_nat kSunPath @ '' bytes''
      else '''')"

subsection \<open>Connecting\<close>

definition new_transport :: "DaemonPaths \<Rightarrow> ConnectItem list \<Rightarrow> ReadyItem list \<Rightarrow> PosixDaemonTransport" where
  "new_transport p cs rs = \<lparr>paths = p, data_fd = None, conf_fd = None, data_connecting = False,
     conf_connecting = False, connect_script = cs, ready_script = rs\<rparr>"

definition close_transport :: "PosixDaemonTransport \<Rightarrow> PosixDaemonTransport" where
  "close_transport t =
     t\<lparr>data_fd := None, conf_fd := None, data_connecting := False, conf_connecting := False\<rparr>"

text \<open>The socket, whether its connect is in progress, and the rest of the script.\<close>

definition unix_begin_connect ::
  "string \<Rightarrow> ConnectItem list \<Rightarrow> Socket option \<times> bool \<times> ConnectItem list" where
  "unix_begin_connect path sc =
     (if path = [] \<or> length path \<ge> kSunPath then (None, False, sc)
      else case sc of
        [] \<Rightarrow> (None, False, [])
      | ConnNow k # sc \<Rightarrow> (Some k, False, sc)
      | ConnLater k # sc \<Rightarrow> (Some k, True, sc)
      | ConnRefused # sc \<Rightarrow> (None, False, sc))"

definition begin_connect :: "Band \<Rightarrow> PosixDaemonTransport \<Rightarrow> bool \<times> PosixDaemonTransport" where
  "begin_connect band t =
     (let t = close_transport t;
          dpath = (if band = Band433 then data433 (paths t) else data868 (paths t));
          cpath = (if band = Band433 then conf433 (paths t) else conf868 (paths t));
          (dfd, dconn, sc) = unix_begin_connect dpath (connect_script t);
          t = t\<lparr>data_connecting := dconn, connect_script := sc\<rparr>
      in if dfd = None then (False, t)
         else
           let (cfd, cconn, sc) = unix_begin_connect cpath (connect_script t);
               t = t\<lparr>conf_connecting := cconn, connect_script := sc\<rparr>
           in if cfd = None then (False, t\<lparr>data_connecting := False\<rparr>)
              else (True, t\<lparr>data_fd := dfd, conf_fd := cfd\<rparr>))"

definition check_one ::
  "Socket option \<Rightarrow> bool \<Rightarrow> ReadyItem list \<Rightarrow> ConnectState \<times> bool \<times> ReadyItem list" where
  "check_one fd connecting sc =
     (if fd = None then (ConnFailed, connecting, sc)
      else if \<not> connecting then (ConnConnected, connecting, sc)
      else case sc of
        [] \<Rightarrow> (ConnConnecting, connecting, [])
      | NotWritable # sc \<Rightarrow> (ConnConnecting, connecting, sc)
      | PollError # sc \<Rightarrow> (ConnFailed, connecting, sc)
      | SockoptFailed # sc \<Rightarrow> (ConnFailed, connecting, sc)
      | SoError # sc \<Rightarrow> (ConnFailed, connecting, sc)
      | Writable # sc \<Rightarrow> (ConnConnected, False, sc))"

definition poll_connect :: "PosixDaemonTransport \<Rightarrow> ConnectState \<times> PosixDaemonTransport" where
  "poll_connect t =
     (let (d, dconn, sc) = check_one (data_fd t) (data_connecting t) (ready_script t);
          t = t\<lparr>data_connecting := dconn, ready_script := sc\<rparr>;
          (c, cconn, sc) = check_one (conf_fd t) (conf_connecting t) (ready_script t);
          t = t\<lparr>conf_connecting := cconn, ready_script := sc\<rparr>
      in if d = ConnFailed \<or> c = ConnFailed then (ConnFailed, t)
         else if d = ConnConnected \<and> c = ConnConnected then (ConnConnected, t)
         else (ConnConnecting, t))"

subsection \<open>Sending and receiving\<close>

text \<open>The return value of \<^verbatim>\<open>send_some\<close> is \<open>None\<close> for -1, else the number of bytes accepted;
  that of \<^verbatim>\<open>recv_some\<close> is \<open>None\<close> for -1, else the bytes read (none for "not now").\<close>

definition send_some :: "Socket option \<Rightarrow> byte list \<Rightarrow> nat option \<times> Socket option" where
  "send_some fd data =
     (case fd of None \<Rightarrow> (None, None)
      | Some k \<Rightarrow>
          if length data = 0 then (Some 0, fd)
          else case send data k of
            (Inr w, k) \<Rightarrow> if w > 0 then (Some w, Some k) else (Some 0, Some k)
          | (Inl EAGAIN, k) \<Rightarrow> (Some 0, Some k)
          | (Inl EINTR, k) \<Rightarrow> (Some 0, Some k)
          | (Inl EOTHER, k) \<Rightarrow> (None, Some k))"

definition recv_some :: "Socket option \<Rightarrow> nat \<Rightarrow> byte list option \<times> Socket option" where
  "recv_some fd cap =
     (case fd of None \<Rightarrow> (None, None)
      | Some k \<Rightarrow>
          if cap = 0 then (None, fd)
          else case recv cap k of
            (Inr bs, k) \<Rightarrow> if bs \<noteq> [] then (Some bs, Some k) else (None, Some k)
          | (Inl EAGAIN, k) \<Rightarrow> (Some [], Some k)
          | (Inl EINTR, k) \<Rightarrow> (Some [], Some k)
          | (Inl EOTHER, k) \<Rightarrow> (None, Some k))"

definition conf_send_some :: "byte list \<Rightarrow> PosixDaemonTransport \<Rightarrow> nat option \<times> PosixDaemonTransport" where
  "conf_send_some data t =
     (let (w, fd) = send_some (conf_fd t) data in (w, t\<lparr>conf_fd := fd\<rparr>))"

definition data_send_some :: "byte list \<Rightarrow> PosixDaemonTransport \<Rightarrow> nat option \<times> PosixDaemonTransport" where
  "data_send_some data t =
     (let (w, fd) = send_some (data_fd t) data in (w, t\<lparr>data_fd := fd\<rparr>))"

definition conf_recv :: "nat \<Rightarrow> PosixDaemonTransport \<Rightarrow> byte list option \<times> PosixDaemonTransport" where
  "conf_recv cap t =
     (let (r, fd) = recv_some (conf_fd t) cap in (r, t\<lparr>conf_fd := fd\<rparr>))"

definition data_recv :: "nat \<Rightarrow> PosixDaemonTransport \<Rightarrow> byte list option \<times> PosixDaemonTransport" where
  "data_recv cap t =
     (let (r, fd) = recv_some (data_fd t) cap in (r, t\<lparr>data_fd := fd\<rparr>))"

subsection \<open>What crosses the sockets\<close>

text \<open>The bytes written to a socket of the link, none when it is closed.\<close>

definition written :: "Socket option \<Rightarrow> byte list" where
  "written fd = (case fd of None \<Rightarrow> [] | Some k \<Rightarrow> tx_written k)"

definition taken :: "Socket option \<Rightarrow> byte list" where
  "taken fd = (case fd of None \<Rightarrow> [] | Some k \<Rightarrow> rx_taken k)"

definition fd_size :: "Socket option \<Rightarrow> nat" where
  "fd_size fd = (case fd of None \<Rightarrow> 0 | Some k \<Rightarrow> recv_size (rx_script k))"

lemma written_simps [simp]: "written None = []" "written (Some k) = tx_written k"
  by (simp_all add: written_def)

lemma taken_simps [simp]: "taken None = []" "taken (Some k) = rx_taken k"
  by (simp_all add: taken_def)

lemma send_some_SomeD:
  assumes "send_some fd data = (Some n, fd')"
  shows "n \<le> length data" "written fd' = written fd @ take n data" "fd \<noteq> None" "fd' \<noteq> None"
    "taken fd' = taken fd" "fd_size fd' = fd_size fd"
  using assms
  by (auto simp: send_some_def fd_size_def split: option.splits if_splits prod.splits sum.splits Errno.splits
      dest: send_okD send_errD)

lemma send_some_NoneD:
  assumes "send_some fd data = (None, fd')"
  shows "written fd' = written fd"
  using assms
  by (auto simp: send_some_def split: option.splits if_splits prod.splits sum.splits Errno.splits
      dest: send_okD send_errD)

lemma recv_some_SomeD:
  assumes "recv_some fd cap = (Some bs, fd')"
  shows "length bs \<le> cap" "taken fd' = taken fd @ bs" "fd \<noteq> None" "fd' \<noteq> None"
    "written fd' = written fd"
  using assms
  by (auto simp: recv_some_def split: option.splits if_splits prod.splits sum.splits Errno.splits
      dest: recv_dataD recv_errD)

lemma recv_some_size:
  assumes "recv_some fd cap = (Some bs, fd')" and "bs \<noteq> []"
  shows "fd_size fd' < fd_size fd"
  using assms
  by (auto simp: recv_some_def fd_size_def split: option.splits if_splits prod.splits sum.splits
      Errno.splits dest: recv_size_dec)

lemma recv_some_NoneD:
  assumes "recv_some fd cap = (None, fd')"
  shows "written fd' = written fd" "fd = None \<longleftrightarrow> fd' = None"
  using assms
  by (auto simp: recv_some_def split: option.splits if_splits prod.splits sum.splits Errno.splits
      dest: recv_dataD recv_errD)

lemma send_some_open:
  assumes "send_some fd data = (r, fd')"
  shows "fd' = None \<longleftrightarrow> fd = None"
  using assms
  by (cases fd) (auto simp: send_some_def split: if_splits prod.splits sum.splits Errno.splits)

lemma fd_None [simp]:
  "send_some None data = (None, None)" "recv_some None cap = (None, None)"
  by (simp_all add: send_some_def recv_some_def)

end
