(* ===== verification/Loraham_Backend.thy ===== *)
theory Loraham_Backend
  imports Loraham_Framing Loraham_Transport
begin

text \<open>
  The backend that drives the LoRaHAM daemon,
  \<^verbatim>\<open>src/src/backend/loraham/loraham_backend.{h,cpp}\<close>: a state machine over the two sockets of
  the link.  Calls of the sink are appended to \<open>lb_out\<close> in the order they are made and handed
  out by \<open>poll\<close>; calls of the RF log are appended to \<open>lb_rflog\<close>.  Other log output is not
  modelled.
\<close>

subsection \<open>State\<close>

datatype LState =
    Disconnected | Connecting | LConfiguring | LReady | TxWriting | TxPending | Draining | Faulted

datatype TxFlush = TxComplete | TxPartial | TxFailed

datatype RfLogEntry = RfRx i16 i16 "byte list" | RfTx string "byte list"

definition kReadChunk :: nat where [simp]: "kReadChunk = 512"
definition kMaxConfLine :: nat where [simp]: "kMaxConfLine = 1024"

record LorahamBackend =
  transport :: PosixDaemonTransport
  config_timeout_ms :: u32
  drain_timeout_ms :: u32
  lb_sink :: bool
  lb_started :: bool
  lb_state :: LState
  lb_config_token :: u32
  lb_next_token :: u32
  config_deadline_at :: u64
  pending_cfg :: RadioConfig
  conf_out :: string
  conf_out_off :: nat
  awaiting_status :: bool
  conf_line :: string
  drain_deadline_at :: u64
  tx_out :: "byte list"
  tx_out_off :: nat
  tx_epoch :: u32
  pending_epoch :: u32
  lb_parser :: LParser
  lb_out :: "SinkEvent list"
  lb_rflog :: "RfLogEntry list"

definition new_loraham :: "PosixDaemonTransport \<Rightarrow> u32 \<Rightarrow> u32 \<Rightarrow> LorahamBackend" where
  "new_loraham t cto dto = \<lparr>transport = t, config_timeout_ms = cto, drain_timeout_ms = dto,
     lb_sink = False, lb_started = False, lb_state = Disconnected, lb_config_token = 0,
     lb_next_token = 0, config_deadline_at = 0, pending_cfg = zero_config, conf_out = [],
     conf_out_off = 0, awaiting_status = False, conf_line = [], drain_deadline_at = 0,
     tx_out = [], tx_out_off = 0, tx_epoch = 0, pending_epoch = 0, lb_parser = lparser_init,
     lb_out = [], lb_rflog = []\<rparr>"

text \<open>\<^verbatim>\<open>if (sink_) sink_->...\<close>\<close>

definition call_sink :: "SinkEvent \<Rightarrow> LorahamBackend \<Rightarrow> LorahamBackend" where
  "call_sink e b = (if lb_sink b then b\<lparr>lb_out := lb_out b @ [e]\<rparr> else b)"

subsection \<open>Link teardown\<close>

definition reset_link_unconfigured :: "LorahamBackend \<Rightarrow> LorahamBackend" where
  "reset_link_unconfigured b =
     b\<lparr>transport := close_transport (transport b), lb_state := Disconnected,
       lb_parser := parser_reset (lb_parser b), conf_line := [], conf_out := [],
       conf_out_off := 0, tx_out := [], tx_out_off := 0, awaiting_status := False\<rparr>"

definition log_tx_outcome :: "string \<Rightarrow> LorahamBackend \<Rightarrow> LorahamBackend" where
  "log_tx_outcome outcome b =
     (if length (tx_out b) \<le> kFramedHeaderLen then b
      else b\<lparr>lb_rflog := lb_rflog b @ [RfTx outcome (drop kFramedHeaderLen (tx_out b))]\<rparr>)"

definition enter_fault :: "LorahamBackend \<Rightarrow> LorahamBackend" where
  "enter_fault b =
     (let b = log_tx_outcome ''unconfirmed'' b
      in b\<lparr>transport := close_transport (transport b), lb_state := Faulted,
           lb_parser := parser_reset (lb_parser b), conf_line := [], conf_out := [],
           conf_out_off := 0, tx_out := [], tx_out_off := 0, awaiting_status := False\<rparr>)"

definition resolve_drain :: "LorahamBackend \<Rightarrow> LorahamBackend" where
  "resolve_drain b = reset_link_unconfigured b"

definition handle_disconnect :: "LorahamBackend \<Rightarrow> LorahamBackend" where
  "handle_disconnect b =
     (if lb_state b = Draining then enter_fault b
      else if lb_state b = TxPending then call_sink OnBackendFailure (enter_fault b)
      else call_sink OnBackendFailure (reset_link_unconfigured b))"

subsection \<open>Configuration\<close>

definition begin_configure_lora ::
  "u64 \<Rightarrow> RadioConfig \<Rightarrow> LorahamBackend \<Rightarrow> u32 \<times> LorahamBackend" where
  "begin_configure_lora now requested b =
     (if lb_state b = Faulted then (0, b)
      else if lb_state b = Draining then (0, b)
      else if lb_state b = Connecting \<or> lb_state b = LConfiguring then (0, b)
      else if lb_state b = TxWriting \<or> lb_state b = TxPending then (0, b)
      else
        case validate_config requested of
          (Ok, Some band) \<Rightarrow>
            (case build_set_command requested of
               None \<Rightarrow> (0, b)
             | Some set_cmd \<Rightarrow>
                 let (ok, t) = begin_connect band (transport b); b = b\<lparr>transport := t\<rparr> in
                 if \<not> ok then (0, b)
                 else
                   let tok = lb_next_token b + 1 in
                   (tok, b\<lparr>conf_out := ''SET TXMODE=MANAGED'' @ [CHR 0x0A] @
                             ''SET TXQUEUE=1'' @ [CHR 0x0A] @ ''SET TXRESULT=1'' @ [CHR 0x0A] @
                             set_cmd @ ''GET STATUS'' @ [CHR 0x0A],
                           conf_out_off := 0, awaiting_status := False, conf_line := [],
                           lb_parser := parser_reset (lb_parser b), pending_cfg := requested,
                           lb_state := Connecting,
                           config_deadline_at := now + ucast (config_timeout_ms b),
                           lb_next_token := tok, lb_config_token := tok\<rparr>))
        | _ \<Rightarrow> (0, b))"

definition config_succeed :: "LorahamBackend \<Rightarrow> LorahamBackend" where
  "config_succeed b =
     (let b = b\<lparr>lb_state := LReady, tx_epoch := tx_epoch b + 1, conf_out := [],
                conf_out_off := 0, awaiting_status := False\<rparr>
      in call_sink (OnConfigureComplete (lb_config_token b)
           \<lparr>applied = True, effective = pending_cfg b\<rparr>) b)"

definition config_fail :: "LorahamBackend \<Rightarrow> LorahamBackend" where
  "config_fail b =
     (let b = reset_link_unconfigured b
      in call_sink (OnConfigureComplete (lb_config_token b)
           \<lparr>applied = False, effective = zero_config\<rparr>) b)"

subsection \<open>CONF input\<close>

definition is_broadcast_line :: "string \<Rightarrow> bool" where
  "is_broadcast_line s \<longleftrightarrow>
     starts_with s ''TX='' \<or> starts_with s ''CAD='' \<or> starts_with s ''RSSI=''"

text \<open>Removal of trailing carriage returns, blanks and tabs.\<close>

definition rstrip :: "string \<Rightarrow> string" where
  "rstrip s = rev (dropWhile (\<lambda>c. c \<in> {CHR 0x0D, CHR '' '', CHR 0x09}) (rev s))"

datatype ConfLines = LinesDone | LinesFatal | LinesStatus bool

text \<open>The loop over the complete lines of the buffer: the result and the rest of the buffer.\<close>

function conf_lines :: "bool \<Rightarrow> string \<Rightarrow> ConfLines \<times> string" where
  "conf_lines awaiting buf =
     (let nl = length (takeWhile (\<lambda>c. c \<noteq> CHR 0x0A) buf) in
      if nl = length buf then (LinesDone, buf)
      else
        let line = rstrip (take nl buf); buf = drop (nl + 1) buf in
        if line = [] then conf_lines awaiting buf
        else if is_broadcast_line line then conf_lines awaiting buf
        else if awaiting \<and> line = ''OK'' then conf_lines awaiting buf
        else if awaiting \<and> starts_with line ''ERR'' then (LinesFatal, buf)
        else if starts_with line ''STATUS'' then
          (if \<not> awaiting then (LinesFatal, buf)
           else (LinesStatus (status_line_radio_ready line), buf))
        else (LinesFatal, buf))"
  by pat_completeness auto
termination
proof (relation "measure (\<lambda>(a, buf). length buf)", goal_cases)
  case 1
  show ?case by simp
next
  case (2 a buf nl line buf')
  then show ?case using length_takeWhile_le [of "\<lambda>c. c \<noteq> CHR 0x0A" buf] by simp
next
  case (3 a buf nl line buf')
  then show ?case using length_takeWhile_le [of "\<lambda>c. c \<noteq> CHR 0x0A" buf] by simp
next
  case (4 a buf nl line buf')
  then show ?case using length_takeWhile_le [of "\<lambda>c. c \<noteq> CHR 0x0A" buf] by simp
qed

declare conf_lines.simps [simp del]

text \<open>\<^verbatim>\<open>pump_conf\<close>: the return value, \<^verbatim>\<open>*got_status\<close>, \<^verbatim>\<open>*status_ready\<close> and the state.\<close>

function pump_conf ::
  "bool \<Rightarrow> LorahamBackend \<Rightarrow> bool \<times> bool \<times> bool \<times> LorahamBackend" where
  "pump_conf awaiting b =
     (let (r, t) = conf_recv kReadChunk (transport b); b = b\<lparr>transport := t\<rparr> in
      case r of
        None \<Rightarrow> (False, False, False, b)
      | Some bs \<Rightarrow>
          if bs = [] then (True, False, False, b)
          else
            let b = b\<lparr>conf_line := conf_line b @ string_of_bytes bs\<rparr> in
            if length (conf_line b) > kMaxConfLine then (False, False, False, b)
            else
              let (res, rest) = conf_lines awaiting (conf_line b); b = b\<lparr>conf_line := rest\<rparr> in
              case res of
                LinesFatal \<Rightarrow> (False, False, False, b)
              | LinesStatus rdy \<Rightarrow> (True, True, rdy, b)
              | LinesDone \<Rightarrow>
                  if length bs < kReadChunk then (True, False, False, b)
                  else pump_conf awaiting b)"
  by pat_completeness auto

lemma conf_recv_size:
  "conf_recv cap t = (Some bs, t') \<Longrightarrow> bs \<noteq> [] \<Longrightarrow> fd_size (conf_fd t') < fd_size (conf_fd t)"
  by (auto simp: conf_recv_def split: prod.splits dest: recv_some_size)

termination pump_conf
  by (relation "measure (\<lambda>(a, b). fd_size (conf_fd (transport b)))")
     (auto dest!: conf_recv_size [OF sym])

declare pump_conf.simps [simp del]

function drain_conf_input :: "LorahamBackend \<Rightarrow> LorahamBackend" where
  "drain_conf_input b =
     (let (r, t) = conf_recv kReadChunk (transport b); b = b\<lparr>transport := t\<rparr> in
      case r of
        None \<Rightarrow> b
      | Some bs \<Rightarrow>
          if bs = [] then b
          else if length bs < kReadChunk then b
          else drain_conf_input b)"
  by pat_completeness auto
termination
  by (relation "measure (\<lambda>b. fd_size (conf_fd (transport b)))") (auto dest!: conf_recv_size [OF sym])

declare drain_conf_input.simps [simp del]

subsection \<open>Configuring\<close>

text \<open>The loop that writes the queued commands; false on a failed write.\<close>

function conf_write_loop :: "LorahamBackend \<Rightarrow> bool \<times> LorahamBackend" where
  "conf_write_loop b =
     (if conf_out_off b < length (conf_out b) then
        let (w, t) = conf_send_some (bytes_of_string (drop (conf_out_off b) (conf_out b)))
              (transport b);
            b = b\<lparr>transport := t\<rparr>
        in case w of
             None \<Rightarrow> (False, b)
           | Some n \<Rightarrow>
               if n = 0 then (True, b)
               else conf_write_loop (b\<lparr>conf_out_off := conf_out_off b + n\<rparr>)
      else (True, b))"
  by pat_completeness auto
termination
  by (relation "measure (\<lambda>b. length (conf_out b) - conf_out_off b)") auto

declare conf_write_loop.simps [simp del]

definition advance_configure :: "LorahamBackend \<Rightarrow> LorahamBackend" where
  "advance_configure b =
     (let (ok, b) = conf_write_loop b in
      if \<not> ok then config_fail b
      else
        let b = (if conf_out_off b \<ge> length (conf_out b) then b\<lparr>awaiting_status := True\<rparr> else b) in
        if \<not> awaiting_status b then b
        else
          let (ok, got, rdy, b) = pump_conf True b in
          if \<not> ok then config_fail b
          else if got then (if rdy then config_succeed b else config_fail b)
          else b)"

definition advance_connect :: "LorahamBackend \<Rightarrow> LorahamBackend" where
  "advance_connect b =
     (let (cs, t) = poll_connect (transport b); b = b\<lparr>transport := t\<rparr> in
      if cs = ConnFailed then config_fail b
      else if cs = ConnConnecting then b
      else advance_configure (b\<lparr>lb_state := LConfiguring\<rparr>))"

subsection \<open>Transmission\<close>

function pump_tx_write :: "LorahamBackend \<Rightarrow> TxFlush \<times> LorahamBackend" where
  "pump_tx_write b =
     (if tx_out_off b < length (tx_out b) then
        let (w, t) = data_send_some (drop (tx_out_off b) (tx_out b)) (transport b);
            b = b\<lparr>transport := t\<rparr>
        in case w of
             None \<Rightarrow> (TxFailed, b)
           | Some n \<Rightarrow>
               if n = 0 then (TxPartial, b)
               else pump_tx_write (b\<lparr>tx_out_off := tx_out_off b + n\<rparr>)
      else (TxComplete, b))"
  by pat_completeness auto
termination
  by (relation "measure (\<lambda>b. length (tx_out b) - tx_out_off b)") auto

declare pump_tx_write.simps [simp del]

definition submit_tx_lora :: "byte list \<Rightarrow> LorahamBackend \<Rightarrow> bool \<times> LorahamBackend" where
  "submit_tx_lora data b =
     (if \<not> lb_started b \<or> lb_state b \<noteq> LReady then (False, b)
      else if length data = 0 \<or> length data > unat kMaxRfPayload then (False, b)
      else
        case encode_tx_packet (Some (kFramedHeaderLen + unat kMaxRfPayload)) (Some data)
            (of_nat (length data)) of
          None \<Rightarrow> (False, b)
        | Some frame \<Rightarrow>
            let b = b\<lparr>tx_out := frame, tx_out_off := 0, tx_epoch := tx_epoch b + 1,
                      pending_epoch := tx_epoch b + 1, lb_state := TxWriting\<rparr>;
                (r, b) = pump_tx_write b
            in case r of
                 TxFailed \<Rightarrow> (False, reset_link_unconfigured b)
               | TxComplete \<Rightarrow> (True, b\<lparr>lb_state := TxPending\<rparr>)
               | TxPartial \<Rightarrow> (True, b))"

definition abandon_pending_tx_lora :: "u64 \<Rightarrow> LorahamBackend \<Rightarrow> LorahamBackend" where
  "abandon_pending_tx_lora now b =
     (if lb_state b = TxPending then
        b\<lparr>lb_state := Draining, drain_deadline_at := now + ucast (drain_timeout_ms b)\<rparr>
      else if lb_state b = TxWriting then reset_link_unconfigured b
      else b)"

subsection \<open>DATA input\<close>

definition finish_tx :: "TxOutcome \<Rightarrow> LorahamBackend \<Rightarrow> LorahamBackend" where
  "finish_tx outcome b =
     (let b = b\<lparr>lb_state := LReady, tx_out := [], tx_out_off := 0\<rparr>
      in if pending_epoch b = tx_epoch b then call_sink (OnTxComplete outcome) b else b)"

definition dispatch :: "LFrame \<Rightarrow> LorahamBackend \<Rightarrow> LorahamBackend" where
  "dispatch f b =
     (if lf_type f = FRAMED_RX_PACKET then
        (case decode_rx f of
           None \<Rightarrow> b
         | Some (rssi, snr, rf, rf_len) \<Rightarrow>
             let rf = take (unat rf_len) rf;
                 b = b\<lparr>lb_rflog := lb_rflog b @ [RfRx rssi snr rf]\<rparr>;
                 rx_ok = (lb_state b = LReady \<or> lb_state b = TxWriting \<or> lb_state b = TxPending)
             in if \<not> rx_ok then b
                else call_sink (OnRx \<lparr>rssi_cdbm = rssi, snr_cdb = snr, rx_event_len = rf_len,
                  rx_event_data = rf\<rparr>) b)
      else if lf_type f = FRAMED_TX_RESULT then
        (case decode_tx_result f of
           None \<Rightarrow> b
         | Some (status, flags, seq) \<Rightarrow>
             let b = (if status = TX_STATUS_OK \<and> (lb_state b = TxPending \<or> lb_state b = Draining)
                      then log_tx_outcome ''ok'' b else b)
             in if lb_state b = TxPending then finish_tx (map_tx_status status) b
                else if lb_state b = Draining then resolve_drain b
                else b)
      else if lf_type f = FRAMED_ERROR then
        (if lb_state b = TxPending then finish_tx RadioError b
         else if lb_state b = Draining then resolve_drain b
         else b)
      else b)"

text \<open>
  The state in which the loop over the frames of one read returns from the caller:
  \<^verbatim>\<open>advance_operational\<close> leaves when the link is torn down or handed to recovery,
  \<^verbatim>\<open>advance_drain\<close> when it is no longer draining.
\<close>

definition link_halted :: "bool \<Rightarrow> LorahamBackend \<Rightarrow> bool" where
  "link_halted draining b \<longleftrightarrow>
     (if draining then lb_state b \<noteq> Draining
      else lb_state b = Disconnected \<or> lb_state b = Faulted \<or> lb_state b = Draining)"

text \<open>Every operation on the link leaves these fields alone.\<close>

lemma reset_simps [simp]:
  "lb_state (reset_link_unconfigured b) = Disconnected"
  "lb_state (enter_fault b) = Faulted"
  "lb_parser (reset_link_unconfigured b) = parser_reset (lb_parser b)"
  "lb_parser (enter_fault b) = parser_reset (lb_parser b)"
  by (simp_all add: reset_link_unconfigured_def enter_fault_def log_tx_outcome_def)

lemma call_sink_simps [simp]:
  "lb_state (call_sink e b) = lb_state b" "lb_parser (call_sink e b) = lb_parser b"
  "transport (call_sink e b) = transport b"
  by (simp_all add: call_sink_def)

lemma log_tx_outcome_simps [simp]:
  "lb_state (log_tx_outcome o' b) = lb_state b" "lb_parser (log_tx_outcome o' b) = lb_parser b"
  "transport (log_tx_outcome o' b) = transport b"
  by (simp_all add: log_tx_outcome_def)

text \<open>A frame that does not end the loop leaves the link and the parser alone.\<close>

lemma dispatch_running:
  assumes "\<not> link_halted draining (dispatch f b)"
  shows "lb_parser (dispatch f b) = lb_parser b" "transport (dispatch f b) = transport b"
  using assms
  by (auto simp: dispatch_def finish_tx_def resolve_drain_def link_halted_def Let_def
      split: option.splits if_splits)

function rx_loop :: "bool \<Rightarrow> byte list \<Rightarrow> LorahamBackend \<Rightarrow> LorahamBackend" where
  "rx_loop draining data b =
     (case lparser_pop (lb_parser b) of
        (POP_GOT_FRAME f, p) \<Rightarrow>
          let b = dispatch f (b\<lparr>lb_parser := p\<rparr>)
          in if link_halted draining b then b else rx_loop draining data b
      | (POP_ERROR e, p) \<Rightarrow> handle_disconnect (b\<lparr>lb_parser := p\<rparr>)
      | (POP_NEED_MORE, p) \<Rightarrow>
          if data = [] then b\<lparr>lb_parser := p\<rparr>
          else
            let (ok, took, p) = lparser_push p (Some data) (length data);
                b = b\<lparr>lb_parser := p\<rparr>
            in if \<not> ok then handle_disconnect b
               else if took = 0 then handle_disconnect b
               else rx_loop draining (drop took data) b)"
  by pat_completeness auto

lemma lparser_pop_have: "lparser_pop p = (POP_GOT_FRAME f, p') \<Longrightarrow> lp_have p' < lp_have p"
  by (auto simp: lparser_pop_def Let_def split: if_splits)

lemma lparser_pop_need: "lparser_pop p = (POP_NEED_MORE, p') \<Longrightarrow> p' = p"
  by (auto simp: lparser_pop_def Let_def split: if_splits)

lemma lparser_push_have:
  "lparser_push p (Some d) n = (ok, took, p') \<Longrightarrow> ok \<and> lp_have p' = lp_have p + took \<and> took \<le> n"
  by (auto simp: lparser_push_def Let_def split: if_splits)

termination rx_loop
proof (relation "measure (\<lambda>(draining, data, b). 2 * length data + lp_have (lb_parser b))", goal_cases)
  case 1
  show ?case by simp
next
  case (2 draining data b r p ok y took p' b')
  then show ?case
    by (cases data) (auto dest!: lparser_pop_need [OF sym] lparser_push_have [OF sym])
next
  case (3 draining data b r p f b')
  then show ?case
    using dispatch_running(1) [of draining f "b\<lparr>lb_parser := p\<rparr>"]
    by (auto dest!: lparser_pop_have [OF sym])
qed

declare rx_loop.simps [simp del]

lemma rx_loop_running:
  "\<not> link_halted draining (rx_loop draining data b) \<Longrightarrow> transport (rx_loop draining data b) = transport b"
proof (induction "2 * length data + lp_have (lb_parser b)" arbitrary: data b rule: less_induct)
  case less
  have hd: "link_halted draining (handle_disconnect b)" for b
    by (simp add: link_halted_def handle_disconnect_def)
  obtain r p where pop: "lparser_pop (lb_parser b) = (r, p)" by fastforce
  note unfold = rx_loop.simps [of draining data b]
  show ?case
  proof (cases r)
    case (POP_GOT_FRAME f)
    let ?b = "dispatch f (b\<lparr>lb_parser := p\<rparr>)"
    have run: "\<not> link_halted draining ?b" and eq: "rx_loop draining data b = rx_loop draining data ?b"
      using less.prems pop POP_GOT_FRAME by (auto simp: unfold Let_def split: if_splits)
    note keep = dispatch_running [OF run]
    have "transport (rx_loop draining data ?b) = transport ?b"
      using less.prems eq keep(1) lparser_pop_have [of "lb_parser b" f p] pop POP_GOT_FRAME
      by (intro less.hyps) simp_all
    with eq keep(2) show ?thesis by simp
  next
    case (POP_ERROR e)
    with less.prems pop hd show ?thesis by (simp add: unfold)
  next
    case POP_NEED_MORE
    obtain ok took p' where push: "lparser_push p (Some data) (length data) = (ok, took, p')"
      by (metis prod_cases3)
    note h = lparser_push_have [OF push] lparser_pop_need [of "lb_parser b" p]
    show ?thesis
    proof (cases "data = [] \<or> took = 0")
      case True
      with less.prems pop POP_NEED_MORE hd push h show ?thesis
        by (auto simp: unfold Let_def split: if_splits)
    next
      case False
      have eq: "rx_loop draining data b = rx_loop draining (drop took data) (b\<lparr>lb_parser := p'\<rparr>)"
        using False pop POP_NEED_MORE push h by (simp add: unfold Let_def)
      have "transport (rx_loop draining (drop took data) (b\<lparr>lb_parser := p'\<rparr>)) =
          transport (b\<lparr>lb_parser := p'\<rparr>)"
        using less.prems eq False h pop POP_NEED_MORE by (intro less.hyps) auto
      with eq show ?thesis by simp
    qed
  qed
qed

text \<open>The outer loop: reads of at most \<open>kReadChunk\<close> bytes.\<close>

function data_loop :: "bool \<Rightarrow> LorahamBackend \<Rightarrow> LorahamBackend" where
  "data_loop draining b =
     (let (r, t) = data_recv kReadChunk (transport b); b = b\<lparr>transport := t\<rparr> in
      case r of
        None \<Rightarrow> handle_disconnect b
      | Some bs \<Rightarrow>
          if bs = [] then b
          else
            let b = rx_loop draining bs b in
            if link_halted draining b then b
            else if length bs < kReadChunk then b
            else data_loop draining b)"
  by pat_completeness auto

lemma data_recv_size:
  "data_recv cap t = (Some bs, t') \<Longrightarrow> bs \<noteq> [] \<Longrightarrow> fd_size (data_fd t') < fd_size (data_fd t)"
  by (auto simp: data_recv_def split: prod.splits dest: recv_some_size)

termination data_loop
  by (relation "measure (\<lambda>(draining, b). fd_size (data_fd (transport b)))")
     (auto simp: rx_loop_running dest!: data_recv_size [OF sym])

declare data_loop.simps [simp del]

subsection \<open>Progress\<close>

definition advance_operational :: "LorahamBackend \<Rightarrow> LorahamBackend" where
  "advance_operational b =
     (let (ok, got, rdy, b) = pump_conf False b in
      if \<not> ok then handle_disconnect b
      else if lb_state b = TxWriting then
        let (r, b) = pump_tx_write b in
        (case r of
           TxFailed \<Rightarrow> call_sink OnBackendFailure (reset_link_unconfigured b)
         | TxComplete \<Rightarrow> data_loop False (b\<lparr>lb_state := TxPending\<rparr>)
         | TxPartial \<Rightarrow> data_loop False b)
      else data_loop False b)"

definition advance_drain :: "u64 \<Rightarrow> LorahamBackend \<Rightarrow> LorahamBackend" where
  "advance_drain now b =
     (if now \<ge> drain_deadline_at b then enter_fault b
      else data_loop True (drain_conf_input b))"

definition poll_step :: "u64 \<Rightarrow> LorahamBackend \<Rightarrow> LorahamBackend" where
  "poll_step now b =
     (case lb_state b of
        Disconnected \<Rightarrow> b
      | Faulted \<Rightarrow> b
      | Connecting \<Rightarrow> if now \<ge> config_deadline_at b then config_fail b else advance_connect b
      | LConfiguring \<Rightarrow> if now \<ge> config_deadline_at b then config_fail b else advance_configure b
      | LReady \<Rightarrow> advance_operational b
      | TxWriting \<Rightarrow> advance_operational b
      | TxPending \<Rightarrow> advance_operational b
      | Draining \<Rightarrow> advance_drain now b)"

definition poll_lora :: "u64 \<Rightarrow> LorahamBackend \<Rightarrow> SinkEvent list \<times> LorahamBackend" where
  "poll_lora now b = (let b = poll_step now b in (lb_out b, b\<lparr>lb_out := []\<rparr>))"

definition start_lora :: "LorahamBackend \<Rightarrow> LorahamBackend" where
  "start_lora b = b\<lparr>lb_started := True\<rparr>"

definition stop_lora :: "LorahamBackend \<Rightarrow> LorahamBackend" where
  "stop_lora b =
     (if lb_state b = Draining \<or> lb_state b = Faulted then b\<lparr>lb_started := False\<rparr>
      else (reset_link_unconfigured b)\<lparr>lb_started := False\<rparr>)"

definition set_sink_lora :: "bool \<Rightarrow> LorahamBackend \<Rightarrow> LorahamBackend" where
  "set_sink_lora sink b = b\<lparr>lb_sink := sink\<rparr>"

definition ready_lora :: "LorahamBackend \<Rightarrow> bool" where
  "ready_lora b \<longleftrightarrow> lb_started b \<and> lb_state b = LReady"

definition next_deadline_lora :: "LorahamBackend \<Rightarrow> u64" where
  "next_deadline_lora b =
     (if lb_state b = Connecting \<or> lb_state b = LConfiguring then config_deadline_at b
      else if lb_state b = Draining then drain_deadline_at b
      else UINT64_MAX)"

definition lora_vtable :: "LorahamBackend RadioBackend" where
  "lora_vtable = \<lparr>set_sink = set_sink_lora, begin_configure = begin_configure_lora,
     start = start_lora, stop = stop_lora, ready = ready_lora,
     backend_next_deadline_ms = next_deadline_lora, submit_tx = submit_tx_lora,
     abandon_pending_tx = abandon_pending_tx_lora, poll = poll_lora\<rparr>"

lemma lora_vtable_simps [simp]:
  "set_sink lora_vtable = set_sink_lora" "begin_configure lora_vtable = begin_configure_lora"
  "start lora_vtable = start_lora" "stop lora_vtable = stop_lora"
  "ready lora_vtable = ready_lora" "submit_tx lora_vtable = submit_tx_lora"
  "abandon_pending_tx lora_vtable = abandon_pending_tx_lora" "poll lora_vtable = poll_lora"
  "backend_next_deadline_ms lora_vtable = next_deadline_lora"
  by (simp_all add: lora_vtable_def)

end
