(* ===== verification/Loraham_Lemmas.thy ===== *)
theory Loraham_Lemmas
  imports Loraham_Backend
begin

text \<open>
  The lemmas of the LoRaHAM backend: what each loop changes, the invariant that ties the state
  of the machine to the bytes on the two sockets, and the account of the events one poll
  delivers.
\<close>

subsection \<open>What the loops change\<close>

lemma conf_recvD:
  assumes "conf_recv cap t = (r, t')"
  shows "\<exists>fd. t' = t\<lparr>conf_fd := fd\<rparr> \<and> written fd = written (conf_fd t) \<and>
     (fd = None \<longleftrightarrow> conf_fd t = None)"
proof -
  obtain fd where fd: "recv_some (conf_fd t) cap = (r, fd)" and t': "t' = t\<lparr>conf_fd := fd\<rparr>"
    using assms by (auto simp: conf_recv_def split: prod.splits)
  show ?thesis
    using t' recv_some_SomeD [of "conf_fd t" cap _ fd] recv_some_NoneD [of "conf_fd t" cap fd] fd
    by (cases r) auto
qed

lemma data_recvD:
  assumes "data_recv cap t = (r, t')"
  shows "\<exists>fd. t' = t\<lparr>data_fd := fd\<rparr> \<and> written fd = written (data_fd t) \<and>
     (fd = None \<longleftrightarrow> data_fd t = None)"
proof -
  obtain fd where fd: "recv_some (data_fd t) cap = (r, fd)" and t': "t' = t\<lparr>data_fd := fd\<rparr>"
    using assms by (auto simp: data_recv_def split: prod.splits)
  show ?thesis
    using t' recv_some_SomeD [of "data_fd t" cap _ fd] recv_some_NoneD [of "data_fd t" cap fd] fd
    by (cases r) auto
qed

text \<open>Reading CONF input changes the state only by \<open>set_conf\<close>.\<close>

definition set_conf :: "Socket option \<Rightarrow> string \<Rightarrow> LorahamBackend \<Rightarrow> LorahamBackend" where
  "set_conf fd l b = b\<lparr>transport := (transport b)\<lparr>conf_fd := fd\<rparr>, conf_line := l\<rparr>"

lemma set_conf_twice [simp]: "set_conf fd l (set_conf fd' l' b) = set_conf fd l b"
  by (simp add: set_conf_def)

lemma set_conf_simps [simp]:
  "conf_fd (transport (set_conf fd l b)) = fd" "data_fd (transport (set_conf fd l b)) = data_fd (transport b)"
  "lb_state (set_conf fd l b) = lb_state b" "conf_line (set_conf fd l b) = l"
  "(set_conf fd l b)\<lparr>conf_line := l'\<rparr> = set_conf fd l' b"
  by (simp_all add: set_conf_def)

lemma pump_conf_keeps:
  "\<exists>fd l. snd (snd (snd (pump_conf awaiting b))) = set_conf fd l b \<and>
     written fd = written (conf_fd (transport b)) \<and> (fd = None \<longleftrightarrow> conf_fd (transport b) = None)"
proof (induction "fd_size (conf_fd (transport b))" arbitrary: b rule: less_induct)
  case less
  obtain r t where rc: "conf_recv kReadChunk (transport b) = (r, t)" by fastforce
  from conf_recvD [OF rc] obtain fd where t: "t = (transport b)\<lparr>conf_fd := fd\<rparr>"
    and fd: "written fd = written (conf_fd (transport b))" "fd = None \<longleftrightarrow> conf_fd (transport b) = None"
    by auto
  have set: "b\<lparr>transport := t\<rparr> = set_conf fd (conf_line b) b"
    "b\<lparr>transport := t, conf_line := l\<rparr> = set_conf fd l b" for l
    by (simp_all add: set_conf_def t)
  have here: "\<exists>fd' l'. set_conf fd l b = set_conf fd' l' b \<and>
      written fd' = written (conf_fd (transport b)) \<and> (fd' = None \<longleftrightarrow> conf_fd (transport b) = None)" for l
    using fd by (intro exI [of _ fd] exI [of _ l]) simp
  show ?case
  proof (cases r)
    case None
    with rc here show ?thesis by (simp add: pump_conf.simps [of awaiting b] set)
  next
    case (Some bs)
    obtain res rest where cl: "conf_lines awaiting (conf_line b @ string_of_bytes bs) = (res, rest)"
      by fastforce
    have again: "\<exists>fd' l'. snd (snd (snd (pump_conf awaiting (set_conf fd l b)))) = set_conf fd' l' b \<and>
        written fd' = written (conf_fd (transport b)) \<and> (fd' = None \<longleftrightarrow> conf_fd (transport b) = None)"
      if "bs \<noteq> []" for l
      using less.hyps [of "set_conf fd l b"] conf_recv_size [of kReadChunk "transport b" bs t] rc Some
        that fd by (simp add: t)
    show ?thesis
      using Some rc cl here again
      by (auto simp: pump_conf.simps [of awaiting b] Let_def set split: ConfLines.split)
  qed
qed

lemma drain_conf_keeps:
  "\<exists>fd. drain_conf_input b = set_conf fd (conf_line b) b \<and>
     written fd = written (conf_fd (transport b)) \<and> (fd = None \<longleftrightarrow> conf_fd (transport b) = None)"
proof (induction "fd_size (conf_fd (transport b))" arbitrary: b rule: less_induct)
  case less
  obtain r t where rc: "conf_recv kReadChunk (transport b) = (r, t)" by fastforce
  from conf_recvD [OF rc] obtain fd where t: "t = (transport b)\<lparr>conf_fd := fd\<rparr>"
    and fd: "written fd = written (conf_fd (transport b))" "fd = None \<longleftrightarrow> conf_fd (transport b) = None"
    by auto
  have set: "b\<lparr>transport := t\<rparr> = set_conf fd (conf_line b) b"
    by (simp add: set_conf_def t)
  have here: "\<exists>fd'. set_conf fd (conf_line b) b = set_conf fd' (conf_line b) b \<and>
      written fd' = written (conf_fd (transport b)) \<and> (fd' = None \<longleftrightarrow> conf_fd (transport b) = None)"
    using fd by (intro exI [of _ fd]) simp
  show ?case
  proof (cases r)
    case (Some bs)
    have "\<exists>fd'. drain_conf_input (set_conf fd (conf_line b) b) = set_conf fd' (conf_line b) b \<and>
        written fd' = written (conf_fd (transport b)) \<and> (fd' = None \<longleftrightarrow> conf_fd (transport b) = None)"
      if "bs \<noteq> []"
      using less.hyps [of "set_conf fd (conf_line b) b"] rc Some
        conf_recv_size [of kReadChunk "transport b" bs t] that fd by (simp add: t)
    with Some rc here show ?thesis
      by (auto simp: drain_conf_input.simps [of b] Let_def set)
  qed (use rc here in \<open>simp add: drain_conf_input.simps [of b] set\<close>)
qed

text \<open>Writing the commands: the bytes accepted are those the offset moved over.\<close>

definition set_conf_out :: "Socket option \<Rightarrow> nat \<Rightarrow> LorahamBackend \<Rightarrow> LorahamBackend" where
  "set_conf_out fd n b = b\<lparr>transport := (transport b)\<lparr>conf_fd := fd\<rparr>, conf_out_off := n\<rparr>"

lemma set_conf_out_twice [simp]: "set_conf_out fd n (set_conf_out fd' n' b) = set_conf_out fd n b"
  by (simp add: set_conf_out_def)

lemma set_conf_out_simps [simp]:
  "conf_fd (transport (set_conf_out fd n b)) = fd" "conf_out (set_conf_out fd n b) = conf_out b"
  "conf_out_off (set_conf_out fd n b) = n" "lb_state (set_conf_out fd n b) = lb_state b"
  by (simp_all add: set_conf_out_def)

lemma take_add_append: "take n xs @ take m (drop n xs) = take (n + m) xs"
  by (simp add: take_add)

lemma conf_write_keeps:
  assumes "conf_out_off b \<le> length (conf_out b)"
    and "written (conf_fd (transport b)) = w @ bytes_of_string (take (conf_out_off b) (conf_out b))"
    and "conf_fd (transport b) \<noteq> None"
  shows "\<exists>fd n. snd (conf_write_loop b) = set_conf_out fd n b \<and> conf_out_off b \<le> n \<and>
     n \<le> length (conf_out b) \<and> fd \<noteq> None \<and> written fd = w @ bytes_of_string (take n (conf_out b))"
  using assms
proof (induction "length (conf_out b) - conf_out_off b" arbitrary: b rule: less_induct)
  case less
  let ?rest = "bytes_of_string (drop (conf_out_off b) (conf_out b))"
  have stop: "b = set_conf_out (conf_fd (transport b)) (conf_out_off b) b"
    by (simp add: set_conf_out_def)
  show ?case
  proof (cases "conf_out_off b < length (conf_out b)")
    case True
    obtain r fd where sd: "send_some (conf_fd (transport b)) ?rest = (r, fd)" by fastforce
    then have cs: "conf_send_some ?rest (transport b) = (r, (transport b)\<lparr>conf_fd := fd\<rparr>)"
      by (simp add: conf_send_some_def)
    show ?thesis
    proof (cases r)
      case None
      have "fd \<noteq> None" using sd less.prems(3) by (auto dest: send_some_open)
      moreover have "written fd = written (conf_fd (transport b))"
        using sd None by (auto dest: send_some_NoneD)
      ultimately show ?thesis
        using None True cs less.prems
        by (intro exI [of _ fd] exI [of _ "conf_out_off b"])
           (simp add: conf_write_loop.simps [of b] set_conf_out_def)
    next
      case (Some n)
      note s = send_some_SomeD [OF sd [unfolded Some]]
      let ?b = "set_conf_out fd (conf_out_off b + n) b"
      have eq: "snd (conf_write_loop b) = (if n = 0 then ?b else snd (conf_write_loop ?b))"
        using True Some cs by (simp add: conf_write_loop.simps [of b] set_conf_out_def)
      have w: "written fd = w @ bytes_of_string (take (conf_out_off b + n) (conf_out b))"
        using s(2) less.prems(2)
        by (simp add: bytes_of_string_def take_map drop_map take_add)
      have le: "conf_out_off b + n \<le> length (conf_out b)" using s(1) True by simp
      show ?thesis
      proof (cases "n = 0")
        case True
        with eq w le s(4) show ?thesis by auto
      next
        case False
        have "\<exists>fd' n'. snd (conf_write_loop ?b) = set_conf_out fd' n' ?b \<and> conf_out_off ?b \<le> n' \<and>
          n' \<le> length (conf_out ?b) \<and> fd' \<noteq> None \<and>
          written fd' = w @ bytes_of_string (take n' (conf_out ?b))"
          using False True w le s(4) by (intro less.hyps) simp_all
        with eq False show ?thesis by fastforce
      qed
    qed
  next
    case False
    with less.prems stop show ?thesis
      by (intro exI [of _ "conf_fd (transport b)"] exI [of _ "conf_out_off b"])
         (auto simp: conf_write_loop.simps [of b])
  qed
qed

text \<open>Writing the frame, likewise.\<close>

definition set_tx_out :: "Socket option \<Rightarrow> nat \<Rightarrow> LorahamBackend \<Rightarrow> LorahamBackend" where
  "set_tx_out fd n b = b\<lparr>transport := (transport b)\<lparr>data_fd := fd\<rparr>, tx_out_off := n\<rparr>"

lemma set_tx_out_twice [simp]: "set_tx_out fd n (set_tx_out fd' n' b) = set_tx_out fd n b"
  by (simp add: set_tx_out_def)

lemma set_tx_out_simps [simp]:
  "data_fd (transport (set_tx_out fd n b)) = fd" "tx_out (set_tx_out fd n b) = tx_out b"
  "tx_out_off (set_tx_out fd n b) = n" "lb_state (set_tx_out fd n b) = lb_state b"
  "conf_fd (transport (set_tx_out fd n b)) = conf_fd (transport b)"
  "(set_tx_out fd n b)\<lparr>tx_out_off := m\<rparr> = set_tx_out fd m b"
  by (simp_all add: set_tx_out_def)

definition pumped :: "byte list \<Rightarrow> LorahamBackend \<Rightarrow> TxFlush \<times> LorahamBackend \<Rightarrow> bool" where
  "pumped w b res \<longleftrightarrow> (\<exists>fd n. snd res = set_tx_out fd n b \<and> n \<le> length (tx_out b) \<and>
     written fd = w @ take n (tx_out b) \<and>
     (fst res = TxComplete \<longrightarrow> n = length (tx_out b)) \<and>
     (fst res = TxPartial \<longrightarrow> n < length (tx_out b)) \<and>
     (fst res \<noteq> TxFailed \<longrightarrow> tx_out_off b < length (tx_out b) \<longrightarrow> fd \<noteq> None))"

text \<open>What a later round achieves, the whole loop achieves.\<close>

lemma pumped_again:
  assumes "pumped w (set_tx_out fd k b) (pump_tx_write (set_tx_out fd k b))" and "fd \<noteq> None"
  shows "pumped w b (pump_tx_write (set_tx_out fd k b))"
proof -
  let ?b = "set_tx_out fd k b"
  from assms(1) obtain fd' n where ih: "snd (pump_tx_write ?b) = set_tx_out fd' n ?b" "n \<le> length (tx_out b)"
    "written fd' = w @ take n (tx_out b)"
    "fst (pump_tx_write ?b) = TxComplete \<longrightarrow> n = length (tx_out b)"
    "fst (pump_tx_write ?b) = TxPartial \<longrightarrow> n < length (tx_out b)"
    "fst (pump_tx_write ?b) \<noteq> TxFailed \<longrightarrow> k < length (tx_out b) \<longrightarrow> fd' \<noteq> None"
    by (auto simp: pumped_def)
  have "fd' \<noteq> None" if "fst (pump_tx_write ?b) \<noteq> TxFailed"
  proof (cases "k < length (tx_out b)")
    case all: False
    then have "pump_tx_write ?b = (TxComplete, ?b)" by (simp add: pump_tx_write.simps [of ?b])
    with ih(1) have "set_tx_out fd' n ?b = ?b" by simp
    then have "data_fd (transport (set_tx_out fd' n ?b)) = data_fd (transport ?b)" by simp
    then show ?thesis using assms(2) by simp
  qed (use ih(6) that in simp)
  with ih show ?thesis unfolding pumped_def by (intro exI [of _ fd'] exI [of _ n]) simp
qed

lemma pumped_pump_tx:
  assumes "tx_out_off b \<le> length (tx_out b)"
    and "written (data_fd (transport b)) = w @ take (tx_out_off b) (tx_out b)"
  shows "pumped w b (pump_tx_write b)"
  using assms
proof (induction "length (tx_out b) - tx_out_off b" arbitrary: b rule: less_induct)
  case less
  let ?rest = "drop (tx_out_off b) (tx_out b)"
  show ?case
  proof (cases "tx_out_off b < length (tx_out b)")
    case True
    obtain r fd where sd: "send_some (data_fd (transport b)) ?rest = (r, fd)" by fastforce
    then have cs: "data_send_some ?rest (transport b) = (r, (transport b)\<lparr>data_fd := fd\<rparr>)"
      by (simp add: data_send_some_def)
    show ?thesis
    proof (cases r)
      case None
      have "written fd = written (data_fd (transport b))"
        using sd None by (auto dest: send_some_NoneD)
      then show ?thesis
        using None True cs less.prems unfolding pumped_def
        by (intro exI [of _ fd] exI [of _ "tx_out_off b"])
           (simp add: pump_tx_write.simps [of b] set_tx_out_def)
    next
      case (Some n)
      note s = send_some_SomeD [OF sd [unfolded Some]]
      let ?b = "set_tx_out fd (tx_out_off b + n) b"
      have eq: "pump_tx_write b = (if n = 0 then (TxPartial, ?b) else pump_tx_write ?b)"
        using True Some cs by (simp add: pump_tx_write.simps [of b] set_tx_out_def)
      have w: "written fd = w @ take (tx_out_off b + n) (tx_out b)"
        using s(2) less.prems(2) by (simp add: take_add)
      have le: "tx_out_off b + n \<le> length (tx_out b)" using s(1) True by simp
      show ?thesis
      proof (cases "n = 0")
        case n0: True
        with eq w le s(4) True show ?thesis
          unfolding pumped_def by (intro exI [of _ fd] exI [of _ "tx_out_off b"]) auto
      next
        case False
        then have "pumped w ?b (pump_tx_write ?b)" using True w le by (intro less.hyps) simp_all
        with pumped_again s(4) eq False show ?thesis by auto
      qed
    qed
  next
    case False
    with less.prems show ?thesis unfolding pumped_def
      by (intro exI [of _ "data_fd (transport b)"] exI [of _ "tx_out_off b"])
         (auto simp: pump_tx_write.simps [of b] set_tx_out_def)
  qed
qed

lemmas pump_tx_keeps = pumped_pump_tx [unfolded pumped_def]

subsection \<open>The invariant\<close>

text \<open>The bytes of one transmission on the DATA socket, and of a sequence of them.\<close>

definition lora_tx_bytes :: "byte list \<Rightarrow> byte list" where
  "lora_tx_bytes d = [FRAMED_TX_PACKET] @ put16le (of_nat (length d)) @ d"

definition rf_payload :: "byte list \<Rightarrow> bool" where
  "rf_payload d \<longleftrightarrow> 0 < length d \<and> length d \<le> 255"

definition tx_stream :: "byte list list \<Rightarrow> byte list" where
  "tx_stream ds = concat (map lora_tx_bytes ds)"

lemma length_lora_tx_bytes [simp]: "length (lora_tx_bytes d) = 3 + length d"
  by (simp add: lora_tx_bytes_def)

text \<open>
  DATA output.  In every state the bytes on the socket are whole frames, followed, while a
  frame is being written, by the part of it that the offset has moved over; the last frame is
  complete exactly when the daemon owns it.
\<close>

fun data_ok :: "LState \<Rightarrow> byte list \<Rightarrow> nat \<Rightarrow> Socket option \<Rightarrow> bool" where
  "data_ok Disconnected out off fd \<longleftrightarrow> fd = None \<and> out = []"
| "data_ok Faulted out off fd \<longleftrightarrow> fd = None \<and> out = []"
| "data_ok Connecting out off fd \<longleftrightarrow> fd \<noteq> None \<and> out = [] \<and> written fd = []"
| "data_ok LConfiguring out off fd \<longleftrightarrow> fd \<noteq> None \<and> out = [] \<and> written fd = []"
| "data_ok LReady out off fd \<longleftrightarrow> out = [] \<and>
     (\<exists>ds. (\<forall>d \<in> set ds. rf_payload d) \<and> written fd = tx_stream ds)"
| "data_ok TxWriting out off fd \<longleftrightarrow> fd \<noteq> None \<and> (\<exists>ds d. (\<forall>d \<in> set ds. rf_payload d) \<and>
     rf_payload d \<and> out = lora_tx_bytes d \<and> off < length out \<and>
     written fd = tx_stream ds @ take off out)"
| "data_ok TxPending out off fd \<longleftrightarrow> fd \<noteq> None \<and> (\<exists>ds d. (\<forall>d \<in> set ds. rf_payload d) \<and>
     rf_payload d \<and> out = lora_tx_bytes d \<and> off = length out \<and> written fd = tx_stream (ds @ [d]))"
| "data_ok Draining out off fd \<longleftrightarrow> fd \<noteq> None \<and> (\<exists>ds d. (\<forall>d \<in> set ds. rf_payload d) \<and>
     rf_payload d \<and> out = lora_tx_bytes d \<and> off = length out \<and> written fd = tx_stream (ds @ [d]))"

text \<open>The commands that apply a configuration.\<close>

definition conf_script :: "string \<Rightarrow> string" where
  "conf_script set_cmd = ''SET TXMODE=MANAGED'' @ [CHR 0x0A] @ ''SET TXQUEUE=1'' @ [CHR 0x0A] @
     ''SET TXRESULT=1'' @ [CHR 0x0A] @ set_cmd @ ''GET STATUS'' @ [CHR 0x0A]"

text \<open>
  CONF output.  While configuring, the bytes on the socket are the part of the commands of
  the pending configuration that the offset has moved over; later they are all of them.
\<close>

fun conf_ok :: "LState \<Rightarrow> RadioConfig \<Rightarrow> string \<Rightarrow> nat \<Rightarrow> bool \<Rightarrow> Socket option \<Rightarrow> bool" where
  "conf_ok Disconnected cfg out off aw fd \<longleftrightarrow> fd = None"
| "conf_ok Faulted cfg out off aw fd \<longleftrightarrow> fd = None"
| "conf_ok Connecting cfg out off aw fd \<longleftrightarrow> fd \<noteq> None \<and> off = 0 \<and> \<not> aw \<and> written fd = [] \<and>
     (\<exists>cmd. build_set_command cfg = Some cmd \<and> out = conf_script cmd)"
| "conf_ok LConfiguring cfg out off aw fd \<longleftrightarrow> fd \<noteq> None \<and> off \<le> length out \<and>
     (aw \<longrightarrow> off = length out) \<and> written fd = bytes_of_string (take off out) \<and>
     (\<exists>cmd. build_set_command cfg = Some cmd \<and> out = conf_script cmd)"
| "conf_ok st cfg out off aw fd \<longleftrightarrow> fd = None \<or>
     (\<exists>cmd. build_set_command cfg = Some cmd \<and> written fd = bytes_of_string (conf_script cmd))"

text \<open>Sockets of later connects have carried nothing yet.\<close>

fun fresh_item :: "ConnectItem \<Rightarrow> bool" where
  "fresh_item (ConnNow k) \<longleftrightarrow> tx_written k = [] \<and> rx_taken k = []"
| "fresh_item (ConnLater k) \<longleftrightarrow> tx_written k = [] \<and> rx_taken k = []"
| "fresh_item ConnRefused \<longleftrightarrow> True"

definition tx_open_lora :: "LorahamBackend \<Rightarrow> bool" where
  "tx_open_lora b \<longleftrightarrow> lb_state b = TxWriting \<or> lb_state b = TxPending"

definition lora_core :: "LorahamBackend \<Rightarrow> bool" where
  "lora_core b \<longleftrightarrow>
     (tx_open_lora b \<longrightarrow> pending_epoch b = tx_epoch b) \<and>
     data_ok (lb_state b) (tx_out b) (tx_out_off b) (data_fd (transport b)) \<and>
     conf_ok (lb_state b) (pending_cfg b) (conf_out b) (conf_out_off b) (awaiting_status b)
       (conf_fd (transport b)) \<and>
     (\<forall>i \<in> set (connect_script (transport b)). fresh_item i)"

definition lora_inv :: "LorahamBackend \<Rightarrow> bool" where
  "lora_inv b \<longleftrightarrow> lora_core b \<and> lparser_invar (lb_parser b) \<and> lb_out b = []"

lemmas lora_core_defs = lora_core_def tx_open_lora_def

lemma lora_core_parser [simp]: "lora_core (b\<lparr>lb_parser := p\<rparr>) = lora_core b"
  by (simp add: lora_core_defs)

lemma lora_core_out [simp]: "lora_core (b\<lparr>lb_out := es\<rparr>) = lora_core b"
  by (simp add: lora_core_defs)

lemma lora_core_rflog [simp]: "lora_core (b\<lparr>lb_rflog := l\<rparr>) = lora_core b"
  by (simp add: lora_core_defs)

lemma lora_core_call_sink [simp]: "lora_core (call_sink e b) = lora_core b"
  by (simp add: call_sink_def)

lemma lora_core_log [simp]: "lora_core (log_tx_outcome o' b) = lora_core b"
  by (simp add: log_tx_outcome_def)

lemma fresh_close [simp]: "connect_script (close_transport t) = connect_script t"
  "data_fd (close_transport t) = None" "conf_fd (close_transport t) = None"
  by (simp_all add: close_transport_def)

lemma lora_core_reset [intro]: "lora_core b \<Longrightarrow> lora_core (reset_link_unconfigured b)"
  by (simp add: lora_core_defs reset_link_unconfigured_def)

lemma lora_core_fault [intro]: "lora_core b \<Longrightarrow> lora_core (enter_fault b)"
  using lora_core_log [of "''unconfirmed''" b]
  by (simp add: lora_core_defs enter_fault_def)

lemma lora_core_disconnect: "lora_core b \<Longrightarrow> lora_core (handle_disconnect b)"
  by (auto simp: handle_disconnect_def)

lemma lora_core_finish:
  assumes "lora_core b" and "lb_state b = TxPending"
  shows "lora_core (finish_tx r b)"
proof -
  obtain ds d where "\<forall>d \<in> set ds. rf_payload d" "rf_payload d"
    "written (data_fd (transport b)) = tx_stream (ds @ [d])"
    using assms by (auto simp: lora_core_def)
  then have "\<exists>ds. (\<forall>d \<in> set ds. rf_payload d) \<and> written (data_fd (transport b)) = tx_stream ds"
    by (intro exI [of _ "ds @ [d]"]) auto
  with assms have "lora_core (b\<lparr>lb_state := LReady, tx_out := [], tx_out_off := 0\<rparr>)"
    by (simp add: lora_core_defs)
  then show ?thesis by (simp add: finish_tx_def Let_def)
qed

lemma lora_core_dispatch: "lora_core b \<Longrightarrow> lora_core (dispatch f b)"
  using lora_core_finish [of b] lora_core_finish [of "log_tx_outcome ''ok'' b"]
    lora_core_reset [of b] lora_core_reset [of "log_tx_outcome ''ok'' b"]
  by (auto simp: dispatch_def resolve_drain_def Let_def split: option.splits prod.splits)

lemma conf_ok_same:
  assumes "conf_ok st cfg out off aw fd" and "written fd' = written fd" and "fd' = None \<longleftrightarrow> fd = None"
  shows "conf_ok st cfg out off aw fd'"
  using assms by (cases st) auto

lemma data_ok_same:
  assumes "data_ok st out off fd" and "written fd' = written fd" and "fd' = None \<longleftrightarrow> fd = None"
  shows "data_ok st out off fd'"
  using assms by (cases st) auto

lemma lora_core_set_conf:
  assumes "lora_core b" and "written fd = written (conf_fd (transport b))"
    and "fd = None \<longleftrightarrow> conf_fd (transport b) = None"
  shows "lora_core (set_conf fd l b)"
  using assms conf_ok_same [OF _ assms(2,3)] by (simp add: lora_core_defs set_conf_def)

lemma lora_core_set_data:
  assumes "lora_core b" and "written fd = written (data_fd (transport b))"
    and "fd = None \<longleftrightarrow> data_fd (transport b) = None"
  shows "lora_core (b\<lparr>transport := (transport b)\<lparr>data_fd := fd\<rparr>\<rparr>)"
  using assms data_ok_same [OF _ assms(2,3)] by (simp add: lora_core_defs)

lemma lora_core_pump_conf:
  "lora_core b \<Longrightarrow> lora_core (snd (snd (snd (pump_conf awaiting b))))"
  using pump_conf_keeps [of awaiting b] lora_core_set_conf [of b] by metis

lemma lora_core_drain_conf: "lora_core b \<Longrightarrow> lora_core (drain_conf_input b)"
  using drain_conf_keeps [of b] lora_core_set_conf [of b] by metis

subsection \<open>The frame loop\<close>

lemma dispatch_set_parser:
  "(dispatch f (b\<lparr>lb_parser := p\<rparr>))\<lparr>lb_parser := q\<rparr> = (dispatch f b)\<lparr>lb_parser := q\<rparr>"
  by (simp add: dispatch_def finish_tx_def resolve_drain_def reset_link_unconfigured_def call_sink_def
      log_tx_outcome_def Let_def split: option.split prod.split)

lemma handle_disconnect_set_parser:
  "(handle_disconnect (b\<lparr>lb_parser := p\<rparr>))\<lparr>lb_parser := q\<rparr> = (handle_disconnect b)\<lparr>lb_parser := q\<rparr>"
  by (simp add: handle_disconnect_def reset_link_unconfigured_def enter_fault_def call_sink_def
      log_tx_outcome_def Let_def)

lemma lparser_dispatch: "lparser_invar (lb_parser b) \<Longrightarrow> lparser_invar (lb_parser (dispatch f b))"
  by (simp add: dispatch_def finish_tx_def resolve_drain_def Let_def split: option.split prod.split)

lemma lparser_disconnect:
  "lparser_invar (lb_parser b) \<Longrightarrow> lparser_invar (lb_parser (handle_disconnect b))"
  by (simp add: handle_disconnect_def)

lemma halted_disconnect: "link_halted draining (handle_disconnect b)"
  by (simp add: link_halted_def handle_disconnect_def)

lemma link_halted_fields [simp]:
  "link_halted draining (b\<lparr>lb_parser := p\<rparr>) = link_halted draining b"
  "link_halted draining (b\<lparr>transport := t\<rparr>) = link_halted draining b"
  by (simp_all add: link_halted_def)

lemma rx_loop_shape:
  "rx_loop draining xs b =
     (case lparser_pop (lb_parser b) of
        (POP_GOT_FRAME f, p) \<Rightarrow>
          if link_halted draining (dispatch f (b\<lparr>lb_parser := p\<rparr>))
          then dispatch f (b\<lparr>lb_parser := p\<rparr>)
          else rx_loop draining xs (dispatch f (b\<lparr>lb_parser := p\<rparr>))
      | (POP_ERROR e, p) \<Rightarrow> handle_disconnect (b\<lparr>lb_parser := p\<rparr>)
      | (POP_NEED_MORE, p) \<Rightarrow>
          if xs = [] then b\<lparr>lb_parser := p\<rparr>
          else if fst (lpush p xs) = 0 then handle_disconnect (b\<lparr>lb_parser := snd (lpush p xs)\<rparr>)
          else rx_loop draining (drop (fst (lpush p xs)) xs) (b\<lparr>lb_parser := snd (lpush p xs)\<rparr>))"
proof -
  obtain r p where pop: "lparser_pop (lb_parser b) = (r, p)" by fastforce
  obtain ok took p' where push: "lparser_push p (Some xs) (length xs) = (ok, took, p')"
    by (metis prod_cases3)
  then have "lpush p xs = (took, p')" "ok"
    using lparser_push_have [OF push] by (simp_all add: lpush_def)
  with pop push show ?thesis
    by (cases r) (simp_all add: rx_loop.simps [of draining xs b] Let_def)
qed

interpretation lrs: parser_loop lparser_invar lparser_held 262 lpush lparser_pop lora_deframe
    lb_parser "\<lambda>p b. b\<lparr>lb_parser := p\<rparr>" dispatch handle_disconnect "link_halted draining"
    "rx_loop draining"
  for draining :: bool
proof unfold_locales
  fix xs b
  show "rx_loop draining xs b =
     (case lparser_pop (lb_parser b) of
        (POP_NEED_MORE, p) \<Rightarrow>
          if xs = [] then b\<lparr>lb_parser := p\<rparr>
          else if fst (lpush p xs) = 0 then handle_disconnect (b\<lparr>lb_parser := snd (lpush p xs)\<rparr>)
          else rx_loop draining (drop (fst (lpush p xs)) xs) (b\<lparr>lb_parser := snd (lpush p xs)\<rparr>)
      | (POP_GOT_FRAME f, p) \<Rightarrow>
          if link_halted draining (dispatch f (b\<lparr>lb_parser := p\<rparr>))
          then dispatch f (b\<lparr>lb_parser := p\<rparr>)
          else rx_loop draining xs (dispatch f (b\<lparr>lb_parser := p\<rparr>))
      | (POP_ERROR e, p) \<Rightarrow> handle_disconnect (b\<lparr>lb_parser := p\<rparr>))"
    by (rule rx_loop_shape)
qed (simp_all add: dispatch_set_parser handle_disconnect_set_parser halted_disconnect lparser_dispatch
    lparser_disconnect dispatch_running(1))

text \<open>What every frame and a lost link keep, the loops keep.\<close>

lemma rx_loop_keeps:
  assumes "lparser_invar (lb_parser b)" and "\<not> link_halted draining b" and "P b"
    and "\<And>xs f n b. \<not> link_halted draining b \<Longrightarrow> lora_deframe xs = Got f n \<Longrightarrow> P b \<Longrightarrow> P (dispatch f b)"
    and "\<And>b. \<not> link_halted draining b \<Longrightarrow> P b \<Longrightarrow> P (handle_disconnect b)"
    and "\<And>p b. P b \<Longrightarrow> P (b\<lparr>lb_parser := p\<rparr>)"
  shows "P (rx_loop draining xs b) \<and> lparser_invar (lb_parser (rx_loop draining xs b))"
  by (rule lrs.loop_trace [of b draining "\<lambda>c. P" "[]" xs]) (use assms in blast)+

lemma data_loop_keeps:
  assumes "lparser_invar (lb_parser b)" and "\<not> link_halted draining b" and "P b"
    and frame: "\<And>xs f n b. \<not> link_halted draining b \<Longrightarrow> lora_deframe xs = Got f n \<Longrightarrow> P b \<Longrightarrow>
      P (dispatch f b)"
    and lost: "\<And>b. \<not> link_halted draining b \<Longrightarrow> P b \<Longrightarrow> P (handle_disconnect b)"
    and parser: "\<And>p b. P b \<Longrightarrow> P (b\<lparr>lb_parser := p\<rparr>)"
    and sock: "\<And>fd b. P b \<Longrightarrow> written fd = written (data_fd (transport b)) \<Longrightarrow>
      (fd = None \<longleftrightarrow> data_fd (transport b) = None) \<Longrightarrow>
      P (b\<lparr>transport := (transport b)\<lparr>data_fd := fd\<rparr>\<rparr>)"
  shows "P (data_loop draining b) \<and> lparser_invar (lb_parser (data_loop draining b))"
  using assms(1-3)
proof (induction "fd_size (data_fd (transport b))" arbitrary: b rule: less_induct)
  case less
  obtain r t where rc: "data_recv kReadChunk (transport b) = (r, t)" by fastforce
  from data_recvD [OF rc] obtain fd where t: "t = (transport b)\<lparr>data_fd := fd\<rparr>"
    and fd: "written fd = written (data_fd (transport b))" "fd = None \<longleftrightarrow> data_fd (transport b) = None"
    by auto
  let ?b = "b\<lparr>transport := t\<rparr>"
  have P: "P ?b" "lparser_invar (lb_parser ?b)" "\<not> link_halted draining ?b"
    using sock [OF less.prems(3) fd] less.prems by (simp_all add: t)
  show ?case
  proof (cases r)
    case None
    with rc P lost lparser_disconnect show ?thesis by (simp add: data_loop.simps [of draining b])
  next
    case (Some bs)
    let ?b' = "rx_loop draining bs ?b"
    have k: "P ?b' \<and> lparser_invar (lb_parser ?b')"
      by (rule rx_loop_keeps [OF P(2,3,1) frame lost parser])
    have "P (data_loop draining ?b') \<and> lparser_invar (lb_parser (data_loop draining ?b'))"
      if "bs \<noteq> []" "\<not> link_halted draining ?b'"
      using less.hyps [of ?b'] rx_loop_running [OF that(2)] that k rc Some
        data_recv_size [of kReadChunk "transport b" bs t] by simp
    with k P Some rc show ?thesis by (simp add: data_loop.simps [of draining b] Let_def)
  qed
qed

lemma lora_core_data_loop:
  assumes "lparser_invar (lb_parser b)" and "\<not> link_halted draining b" and "lora_core b"
  shows "lora_core (data_loop draining b) \<and> lparser_invar (lb_parser (data_loop draining b))"
  using assms by (rule data_loop_keeps)
    (simp_all add: lora_core_dispatch lora_core_disconnect lora_core_set_data)

subsection \<open>Configuring keeps the invariant\<close>

lemma lora_core_set_conf_out:
  assumes "lora_core b" and "lb_state b = LConfiguring"
    and "n \<le> length (conf_out b)" "conf_out_off b \<le> n" "fd \<noteq> None"
    and "written fd = bytes_of_string (take n (conf_out b))"
  shows "lora_core (set_conf_out fd n b)"
  using assms by (auto simp: lora_core_defs set_conf_out_def)

lemma lora_core_succeed:
  assumes "lora_core b" and "lb_state b = LConfiguring" and "awaiting_status b"
  shows "lora_core (config_succeed b)"
proof -
  have "\<exists>ds. (\<forall>d \<in> set ds. rf_payload d) \<and> written (data_fd (transport b)) = tx_stream ds"
    using assms by (intro exI [of _ "[]"]) (simp add: lora_core_def tx_stream_def)
  then have "lora_core (b\<lparr>lb_state := LReady, tx_epoch := tx_epoch b + 1, conf_out := [], conf_out_off := 0,
      awaiting_status := False\<rparr>)"
    using assms by (auto simp: lora_core_defs)
  then show ?thesis by (simp add: config_succeed_def Let_def)
qed

lemma lora_core_config_fail: "lora_core b \<Longrightarrow> lora_core (config_fail b)"
  by (simp add: config_fail_def Let_def lora_core_reset)

text \<open>The state in which \<^verbatim>\<open>pump_conf\<close> is called while configuring, and the one it returns.\<close>

lemma advance_configure_cases:
  assumes core: "lora_core b" and st: "lb_state b = LConfiguring"
  obtains (failed) b' where "advance_configure b = config_fail b'" "lora_core b'"
      "lb_sink b' = lb_sink b" "lb_out b' = lb_out b" "lb_config_token b' = lb_config_token b"
      "lb_parser b' = lb_parser b"
    | (waiting) "lora_core (advance_configure b)" "lb_state (advance_configure b) = LConfiguring"
      "lb_sink (advance_configure b) = lb_sink b" "lb_out (advance_configure b) = lb_out b"
      "lb_config_token (advance_configure b) = lb_config_token b"
      "lb_parser (advance_configure b) = lb_parser b"
    | (ready) b' where "advance_configure b = config_succeed b'" "lora_core b'"
      "lb_state b' = LConfiguring" "awaiting_status b'" "lb_sink b' = lb_sink b" "lb_out b' = lb_out b"
      "lb_config_token b' = lb_config_token b" "lb_parser b' = lb_parser b"
      "pending_cfg b' = pending_cfg b"
proof -
  have c: "conf_out_off b \<le> length (conf_out b)" "conf_fd (transport b) \<noteq> None"
    "written (conf_fd (transport b)) = [] @ bytes_of_string (take (conf_out_off b) (conf_out b))"
    using core st by (auto simp: lora_core_def)
  obtain ok b1 where w: "conf_write_loop b = (ok, b1)" by fastforce
  then obtain fd n where b1: "b1 = set_conf_out fd n b" and n: "conf_out_off b \<le> n" "n \<le> length (conf_out b)"
    "fd \<noteq> None" "written fd = bytes_of_string (take n (conf_out b))"
    using conf_write_keeps [OF c(1,3,2)] by auto
  have core1: "lora_core b1" unfolding b1 using n by (intro lora_core_set_conf_out core st)
  define b2 where "b2 = (if conf_out_off b1 \<ge> length (conf_out b1) then b1\<lparr>awaiting_status := True\<rparr> else b1)"
  have core2: "lora_core b2" using core1 st n by (auto simp: b2_def lora_core_defs b1)
  obtain ok' got rdy b3 where p: "pump_conf True b2 = (ok', got, rdy, b3)" by (metis prod_cases4)
  then obtain fd' l where b3: "b3 = set_conf fd' l b2" using pump_conf_keeps [of True b2] by auto
  have core3: "lora_core b3" using lora_core_pump_conf [OF core2, of True] p by simp
  have eq: "advance_configure b =
      (if \<not> ok then config_fail b1
       else if \<not> awaiting_status b2 then b2
       else if \<not> ok' then config_fail b3
       else if got then (if rdy then config_succeed b3 else config_fail b3) else b3)"
    by (simp add: advance_configure_def w p b2_def [symmetric] Let_def)
  note defs = b1 b2_def b3 set_conf_def set_conf_out_def
  consider "\<not> ok" | "ok" "\<not> awaiting_status b2" | "ok" "awaiting_status b2" "\<not> ok' \<or> got \<and> \<not> rdy"
    | "ok" "awaiting_status b2" "ok'" "\<not> got" | "ok" "awaiting_status b2" "ok'" "got" "rdy" by blast
  then show ?thesis
  proof cases
    case 1
    with core1 show ?thesis by (intro failed [of b1]) (simp_all add: eq defs)
  next
    case 2
    with core2 st show ?thesis by (intro waiting) (simp_all add: eq defs)
  next
    case 3
    then have e: "advance_configure b = config_fail b3" by (auto simp: eq)
    with core3 show ?thesis by (intro failed [of b3]) (simp_all add: defs)
  next
    case 4
    then have e: "advance_configure b = b3" by (simp add: eq)
    with core3 st show ?thesis by (intro waiting) (simp_all add: defs)
  next
    case 5
    then have e: "advance_configure b = config_succeed b3" by (simp add: eq)
    moreover have "awaiting_status b3" using 5 by (simp add: b3 set_conf_def)
    ultimately show ?thesis using core3 st by (intro ready [of b3]) (simp_all add: defs)
  qed
qed

lemma poll_connectD:
  assumes "poll_connect t = (cs, t')"
  shows "data_fd t' = data_fd t" "conf_fd t' = conf_fd t" "connect_script t' = connect_script t"
  using assms by (auto simp: poll_connect_def Let_def split_beta split: if_splits)

lemma lora_core_connected:
  assumes "lora_core b" and "lb_state b = Connecting" and "poll_connect (transport b) = (cs, t)"
  shows "lora_core (b\<lparr>transport := t\<rparr>)" "lora_core (b\<lparr>transport := t, lb_state := LConfiguring\<rparr>)"
  using assms poll_connectD [OF assms(3)] by (auto simp: lora_core_defs bytes_of_string_def)

lemma unix_begin_connect_fresh:
  assumes "unix_begin_connect path sc = (fd, conn, sc')" and "\<forall>i \<in> set sc. fresh_item i"
  shows "\<forall>i \<in> set sc'. fresh_item i" "written fd = []" "taken fd = []"
  using assms by (auto simp: unix_begin_connect_def split: if_splits list.splits ConnectItem.splits)

lemma begin_connectD:
  assumes "begin_connect band t = (ok, t')" and "\<forall>i \<in> set (connect_script t). fresh_item i"
  shows "\<forall>i \<in> set (connect_script t'). fresh_item i"
    "ok \<Longrightarrow> data_fd t' \<noteq> None \<and> conf_fd t' \<noteq> None \<and> written (data_fd t') = [] \<and> written (conf_fd t') = []"
    "\<not> ok \<Longrightarrow> data_fd t' = None \<and> conf_fd t' = None"
proof -
  let ?dp = "if band = Band433 then data433 (paths t) else data868 (paths t)"
  let ?cp = "if band = Band433 then conf433 (paths t) else conf868 (paths t)"
  obtain dfd dc sc where d: "unix_begin_connect ?dp (connect_script t) = (dfd, dc, sc)"
    by (metis prod_cases3)
  obtain cfd cc sc' where c: "unix_begin_connect ?cp sc = (cfd, cc, sc')" by (metis prod_cases3)
  note fd = unix_begin_connect_fresh [OF d assms(2)]
  note fc = unix_begin_connect_fresh [OF c fd(1)]
  have "begin_connect band t = (let t = close_transport t in
     if dfd = None then (False, t\<lparr>data_connecting := dc, connect_script := sc\<rparr>)
     else if cfd = None then (False, t\<lparr>data_connecting := False, connect_script := sc', conf_connecting := cc\<rparr>)
     else (True, t\<lparr>data_connecting := dc, connect_script := sc', conf_connecting := cc, data_fd := dfd, conf_fd := cfd\<rparr>))"
    using d c by (cases band) (simp_all add: begin_connect_def Let_def close_transport_def)
  with assms(1) fd fc show "\<forall>i \<in> set (connect_script t'). fresh_item i"
    "ok \<Longrightarrow> data_fd t' \<noteq> None \<and> conf_fd t' \<noteq> None \<and> written (data_fd t') = [] \<and> written (conf_fd t') = []"
    "\<not> ok \<Longrightarrow> data_fd t' = None \<and> conf_fd t' = None"
    by (auto simp: Let_def split: if_splits)
qed

lemma lora_core_begin_configure:
  assumes core: "lora_core b"
  shows "lora_core (snd (begin_configure_lora now c b))"
proof (cases "lb_state b = Disconnected \<or> lb_state b = LReady")
  case st: True
  show ?thesis
  proof (cases "\<exists>band. validate_config c = (Ok, Some band)")
    case True
    then obtain band where v: "validate_config c = (Ok, Some band)" by blast
    then obtain cmd where cmd: "build_set_command c = Some cmd" by (simp add: build_set_command_eq)
    obtain ok t where bc: "begin_connect band (transport b) = (ok, t)" by fastforce
    have fr: "\<forall>i \<in> set (connect_script (transport b)). fresh_item i" using core by (simp add: lora_core_def)
    note t = begin_connectD [OF bc fr]
    have out: "tx_out b = []" using core st by (auto simp: lora_core_def)
    show ?thesis
    proof (cases ok)
      case True
      with st v cmd bc t out show ?thesis
        by (auto simp: begin_configure_lora_def lora_core_defs conf_script_def Let_def)
    next
      case False
      have "data_ok LReady [] (tx_out_off b) None"
        by (auto simp: tx_stream_def intro: exI [of _ "[]"])
      with False st v cmd bc t out show ?thesis
        by (auto simp: begin_configure_lora_def lora_core_defs Let_def simp del: data_ok.simps(5))
    qed
  next
    case False
    with core show ?thesis
      by (auto simp: begin_configure_lora_def split: prod.split ConfigError.split option.split)
  qed
next
  case False
  with core show ?thesis by (cases "lb_state b") (simp_all add: begin_configure_lora_def)
qed

subsection \<open>Transmission keeps the invariant\<close>

lemma encode_tx_packet_lora:
  assumes "rf_payload d"
  shows "encode_tx_packet (Some 258) (Some d) (of_nat (length d)) = Some (lora_tx_bytes d)"
proof -
  have "(of_nat (length d) :: u16) \<le> 255" "unat (of_nat (length d) :: u16) = length d"
    "(of_nat (length d) :: u16) \<noteq> 0"
    using assms by (auto simp: rf_payload_def word_le_nat_alt unat_eq_0 [symmetric])
  with assms show ?thesis
    by (simp add: encode_tx_packet_def lora_tx_bytes_def rf_payload_def not_less)
qed

lemma tx_stream_snoc [simp]: "tx_stream (ds @ [d]) = tx_stream ds @ lora_tx_bytes d"
  by (simp add: tx_stream_def)

text \<open>The write pump in the state of a frame being written.\<close>

lemma lora_core_pump_tx:
  assumes core: "lora_core b" and st: "lb_state b = TxWriting" and p: "pump_tx_write b = (r, b')"
  shows "\<exists>fd n. b' = set_tx_out fd n b" "r = TxPartial \<Longrightarrow> lora_core b'"
    "r = TxComplete \<Longrightarrow> lora_core (b'\<lparr>lb_state := TxPending\<rparr>)" "lora_core (reset_link_unconfigured b')"
proof -
  obtain ds d where d: "\<forall>d \<in> set ds. rf_payload d" "rf_payload d" "tx_out b = lora_tx_bytes d"
    "tx_out_off b < length (tx_out b)" "written (data_fd (transport b)) = tx_stream ds @ take (tx_out_off b) (tx_out b)"
    using core st by (auto simp: lora_core_def)
  obtain fd n where k: "b' = set_tx_out fd n b" "n \<le> length (tx_out b)"
    "written fd = tx_stream ds @ take n (tx_out b)" "r = TxComplete \<longrightarrow> n = length (tx_out b)"
    "r = TxPartial \<longrightarrow> n < length (tx_out b)" "r \<noteq> TxFailed \<longrightarrow> fd \<noteq> None"
    using pump_tx_keeps [OF less_imp_le [OF d(4)] d(5)] d(4) p by auto
  show "\<exists>fd n. b' = set_tx_out fd n b" using k(1) by blast
  show "lora_core b'" if "r = TxPartial"
  proof -
    have "data_ok TxWriting (tx_out b) n fd"
      unfolding data_ok.simps using that d k by (intro conjI exI [of _ ds] exI [of _ d]) auto
    with that core st k(1) show ?thesis by (simp add: lora_core_defs set_tx_out_def)
  qed
  show "lora_core (b'\<lparr>lb_state := TxPending\<rparr>)" if "r = TxComplete"
  proof -
    have "data_ok TxPending (tx_out b) n fd"
      unfolding data_ok.simps using that d k by (intro conjI exI [of _ ds] exI [of _ d]) auto
    with that core st k(1) show ?thesis by (simp add: lora_core_defs set_tx_out_def)
  qed
  show "lora_core (reset_link_unconfigured b')"
    using core k(1) by (simp add: lora_core_defs reset_link_unconfigured_def set_tx_out_def)
qed

lemma lora_core_writing:
  assumes "lora_core b" and "lb_state b = LReady" and "data_fd (transport b) \<noteq> None" and "rf_payload d"
  shows "lora_core (b\<lparr>tx_out := lora_tx_bytes d, tx_out_off := 0, tx_epoch := e, pending_epoch := e,
     lb_state := TxWriting\<rparr>)"
  using assms by (auto simp: lora_core_defs)

lemma lora_core_submit:
  assumes core: "lora_core b"
  shows "lora_core (snd (submit_tx_lora d b))"
proof (cases "lb_started b \<and> lb_state b = LReady \<and> rf_payload d")
  case True
  let ?b = "b\<lparr>tx_out := lora_tx_bytes d, tx_out_off := 0, tx_epoch := tx_epoch b + 1,
    pending_epoch := tx_epoch b + 1, lb_state := TxWriting\<rparr>"
  obtain r b' where p: "pump_tx_write ?b = (r, b')" by fastforce
  have eq: "submit_tx_lora d b = (case r of TxFailed \<Rightarrow> (False, reset_link_unconfigured b')
      | TxComplete \<Rightarrow> (True, b'\<lparr>lb_state := TxPending\<rparr>) | TxPartial \<Rightarrow> (True, b'))"
    using True p by (simp add: submit_tx_lora_def encode_tx_packet_lora rf_payload_def [symmetric])
       (simp add: rf_payload_def)
  show ?thesis
  proof (cases "data_fd (transport b) = None")
    case fd: True
    then have "pump_tx_write ?b = (TxFailed, ?b)"
      by (simp add: pump_tx_write.simps [of ?b] data_send_some_def)
    with p eq core show ?thesis by (auto simp: lora_core_defs reset_link_unconfigured_def)
  next
    case False
    with True core have "lora_core ?b" by (intro lora_core_writing) simp_all
    from lora_core_pump_tx [OF this _ p] show ?thesis by (cases r) (simp_all add: eq)
  qed
next
  case False
  then have "submit_tx_lora d b = (False, b)"
    by (auto simp: submit_tx_lora_def rf_payload_def)
  with core show ?thesis by simp
qed

lemma lora_core_abandon: "lora_core b \<Longrightarrow> lora_core (abandon_pending_tx_lora now b)"
  using lora_core_reset [of b]
  by (auto simp: abandon_pending_tx_lora_def lora_core_defs)

lemma lora_core_stop: "lora_core b \<Longrightarrow> lora_core (stop_lora b)"
proof -
  have "lora_core (b\<lparr>lb_started := s\<rparr>) = lora_core b" for b s by (simp add: lora_core_defs)
  then show "lora_core b \<Longrightarrow> lora_core (stop_lora b)"
    by (simp add: stop_lora_def lora_core_reset)
qed

subsection \<open>The events of a poll\<close>

definition completes :: "SinkEvent list \<Rightarrow> nat" where
  "completes es = length (filter (\<lambda>e. \<exists>r. e = OnTxComplete r) es)"

lemma completes_simps [simp]:
  "completes [] = 0" "completes (es @ fs) = completes es + completes fs"
  "completes [OnRx rx] = 0" "completes [OnTxComplete r] = 1" "completes [OnBackendFailure] = 0"
  "completes [OnConfigureComplete t c] = 0"
  by (simp_all add: completes_def)

lemma completes_pos: "OnTxComplete r \<in> set es \<Longrightarrow> 0 < completes es"
  by (auto simp: completes_def filter_empty_conv)

lemma completes_ex: "0 < completes es \<Longrightarrow> \<exists>r. OnTxComplete r \<in> set es"
  by (auto simp: completes_def filter_empty_conv)

text \<open>
  In the operational states, with \<open>opened\<close> for a transmission in flight when the poll began:
  packets are well formed, no configuration completes, the transmission completes at most
  once, and once it is over the sink was told, by its outcome or by the failure of the link.
\<close>

definition poll_account :: "bool \<Rightarrow> LorahamBackend \<Rightarrow> bool" where
  "poll_account opened b \<longleftrightarrow>
     (\<forall>rx. OnRx rx \<in> set (lb_out b) \<longrightarrow> rx_wf rx) \<and>
     (\<forall>t r. OnConfigureComplete t r \<notin> set (lb_out b)) \<and>
     (\<not> lb_sink b \<longrightarrow> lb_out b = []) \<and>
     (tx_open_lora b \<longrightarrow> opened \<and> pending_epoch b = tx_epoch b \<and> completes (lb_out b) = 0 \<and>
        OnBackendFailure \<notin> set (lb_out b)) \<and>
     completes (lb_out b) \<le> (if opened then 1 else 0) \<and>
     (lb_sink b \<and> opened \<and> \<not> tx_open_lora b \<longrightarrow>
        completes (lb_out b) = 1 \<or> OnBackendFailure \<in> set (lb_out b))"

lemma poll_account_fields [simp]:
  "poll_account opened (b\<lparr>lb_parser := p\<rparr>) = poll_account opened b"
  "poll_account opened (b\<lparr>transport := t\<rparr>) = poll_account opened b"
  "poll_account opened (b\<lparr>lb_rflog := es\<rparr>) = poll_account opened b"
  "poll_account opened (set_conf fd l b) = poll_account opened b"
  "poll_account opened (set_tx_out fd n b) = poll_account opened b"
  "poll_account opened (log_tx_outcome o' b) = poll_account opened b"
  by (simp_all add: poll_account_def tx_open_lora_def set_conf_def set_tx_out_def log_tx_outcome_def)

lemma rx_wf_decode:
  assumes "decode_rx f = Some (rssi, snr, rf, n)" and "length (lf_payload f) = unat (lf_len f)"
  shows "unat n \<le> length rf"
  using assms
  by (auto simp: decode_rx_def Let_def word_le_nat_alt unat_sub split: if_splits)

lemma poll_account_down:
  assumes "poll_account opened b"
  shows "poll_account opened (call_sink OnBackendFailure (reset_link_unconfigured b))"
    "poll_account opened (call_sink OnBackendFailure (enter_fault b))"
  using assms
  by (auto simp: poll_account_def tx_open_lora_def call_sink_def reset_link_unconfigured_def
      enter_fault_def log_tx_outcome_def)

lemma poll_account_disconnect:
  assumes "poll_account opened b"
  shows "poll_account opened (handle_disconnect b)"
proof -
  have "poll_account opened (enter_fault b)" if "lb_state b = Draining"
    using assms that
    by (auto simp: poll_account_def tx_open_lora_def enter_fault_def log_tx_outcome_def)
  with poll_account_down [OF assms] show ?thesis by (simp add: handle_disconnect_def)
qed

lemma poll_account_finish:
  assumes "poll_account opened b" and "lb_state b = TxPending"
  shows "poll_account opened (finish_tx r b)"
  using assms by (auto simp: poll_account_def tx_open_lora_def finish_tx_def call_sink_def Let_def)

lemma poll_account_rx:
  assumes "poll_account opened b" and "rx_wf rx"
  shows "poll_account opened (call_sink (OnRx rx) b)"
  using assms by (auto simp: poll_account_def tx_open_lora_def call_sink_def)

lemma poll_account_dispatch:
  assumes "\<not> link_halted False b" and "lora_deframe xs = Got f n" and "poll_account opened b"
  shows "poll_account opened (dispatch f b)"
proof -
  have nd: "lb_state b \<noteq> Draining" using assms(1) by (simp add: link_halted_def)
  have "rx_wf \<lparr>rssi_cdbm = a, snr_cdb = c, rx_event_len = m, rx_event_data = take (unat m) rf\<rparr>"
    if "decode_rx f = Some (a, c, rf, m)" for a c rf m
    using rx_wf_decode [OF that lora_deframe_got(3) [OF assms(2)]] by (simp add: rx_wf_def)
  then show ?thesis
    using assms(3) nd poll_account_finish [of opened b] poll_account_finish [of opened "log_tx_outcome ''ok'' b"]
    by (auto simp: dispatch_def Let_def intro!: poll_account_rx split: option.split prod.split)
qed

lemma poll_account_data_loop:
  assumes "lparser_invar (lb_parser b)" and "\<not> link_halted False b" and "poll_account opened b"
  shows "poll_account opened (data_loop False b)"
  using data_loop_keeps [of b False "poll_account opened"] assms
    poll_account_dispatch poll_account_disconnect by simp

lemma poll_account_operational:
  assumes core: "lora_core b" and par: "lparser_invar (lb_parser b)" and out: "lb_out b = []"
    and st: "lb_state b = LReady \<or> lb_state b = TxWriting \<or> lb_state b = TxPending"
  shows "lora_core (advance_operational b) \<and> lparser_invar (lb_parser (advance_operational b)) \<and>
     poll_account (tx_open_lora b) (advance_operational b)"
proof -
  obtain ok got rdy b1 where p: "pump_conf False b = (ok, got, rdy, b1)" by (metis prod_cases4)
  obtain fd l where b1: "b1 = set_conf fd l b" using pump_conf_keeps [of False b] p by auto
  have core1: "lora_core b1" using lora_core_pump_conf [OF core, of False] p by simp
  have acc: "poll_account (tx_open_lora b) b"
    using core out by (auto simp: poll_account_def lora_core_def)
  have par1: "lparser_invar (lb_parser b1)" using par by (simp add: b1 set_conf_def)
  have loop: "lora_core (data_loop False b') \<and> lparser_invar (lb_parser (data_loop False b')) \<and>
      poll_account (tx_open_lora b) (data_loop False b')"
    if "lora_core b'" "lparser_invar (lb_parser b')" "poll_account (tx_open_lora b) b'"
      "\<not> link_halted False b'" for b'
    using that lora_core_data_loop poll_account_data_loop by blast
  show ?thesis
  proof (cases "ok \<and> lb_state b1 = TxWriting")
    case True
    obtain r b2 where w: "pump_tx_write b1 = (r, b2)" by fastforce
    note k = lora_core_pump_tx [OF core1 conjunct2 [OF True] w]
    obtain fd2 n2 where b2: "b2 = set_tx_out fd2 n2 b1" using k(1) by blast
    have tw: "lb_state b = TxWriting" using True by (simp add: b1)
    have par2: "lparser_invar (lb_parser b2)" using par1 by (simp add: b2 set_tx_out_def)
    have acc2: "poll_account (tx_open_lora b) b2" using acc by (simp add: b2 b1)
    have acc3: "poll_account (tx_open_lora b) (b2\<lparr>lb_state := TxPending\<rparr>)"
      using acc2 tw by (auto simp: poll_account_def tx_open_lora_def b2 b1)
    have eq: "advance_operational b = (case r of
        TxFailed \<Rightarrow> call_sink OnBackendFailure (reset_link_unconfigured b2)
      | TxComplete \<Rightarrow> data_loop False (b2\<lparr>lb_state := TxPending\<rparr>) | TxPartial \<Rightarrow> data_loop False b2)"
      using True by (simp add: advance_operational_def p w)
    show ?thesis
    proof (cases r)
      case TxFailed
      then show ?thesis using k(4) par2 poll_account_down(1) [OF acc2] by (simp add: eq)
    next
      case TxComplete
      then show ?thesis
        unfolding eq using loop [of "b2\<lparr>lb_state := TxPending\<rparr>"] k(3) par2 acc3
        by (simp add: link_halted_def)
    next
      case TxPartial
      then show ?thesis
        unfolding eq using loop [of b2] k(2) par2 acc2 tw by (simp add: link_halted_def b2 b1)
    qed
  next
    case False
    then have "advance_operational b = (if ok then data_loop False b1 else handle_disconnect b1)"
      by (auto simp: advance_operational_def p)
    moreover have "\<not> link_halted False b1" using st by (auto simp: link_halted_def b1)
    ultimately show ?thesis
      using loop [of b1] core1 par1 acc lora_core_disconnect poll_account_disconnect lparser_disconnect
      by (simp add: b1)
  qed
qed

subsection \<open>Draining delivers nothing\<close>

definition drain_quiet :: "LorahamBackend \<Rightarrow> bool" where
  "drain_quiet b \<longleftrightarrow> lb_out b = [] \<and>
     (lb_state b = Draining \<or> lb_state b = Disconnected \<or> lb_state b = Faulted)"

lemma drain_quiet_down:
  "drain_quiet b \<Longrightarrow> drain_quiet (reset_link_unconfigured b)" "drain_quiet b \<Longrightarrow> drain_quiet (enter_fault b)"
  by (simp_all add: drain_quiet_def reset_link_unconfigured_def enter_fault_def log_tx_outcome_def)

lemma drain_quiet_dispatch:
  assumes "\<not> link_halted True b" and "drain_quiet b"
  shows "drain_quiet (dispatch f b)"
proof -
  have st: "lb_state b = Draining" using assms(1) by (simp add: link_halted_def)
  have log: "drain_quiet (log_tx_outcome o' b)" for o'
    using assms(2) by (simp add: drain_quiet_def log_tx_outcome_def)
  have rf: "drain_quiet (b\<lparr>lb_rflog := es\<rparr>)" for es using assms(2) by (simp add: drain_quiet_def)
  show ?thesis
    using assms(2) st rf drain_quiet_down(1) [OF assms(2)] drain_quiet_down(1) [OF log]
    by (auto simp: dispatch_def resolve_drain_def Let_def split: option.split prod.split)
qed

lemma drain_quiet_disconnect:
  "\<not> link_halted True b \<Longrightarrow> drain_quiet b \<Longrightarrow> drain_quiet (handle_disconnect b)"
  by (simp add: link_halted_def handle_disconnect_def drain_quiet_down)

lemma advance_drain_quiet:
  assumes core: "lora_core b" and par: "lparser_invar (lb_parser b)" and out: "lb_out b = []"
    and st: "lb_state b = Draining"
  shows "lora_core (advance_drain now b) \<and> lparser_invar (lb_parser (advance_drain now b)) \<and>
     drain_quiet (advance_drain now b)"
proof -
  have q: "drain_quiet b" using out st by (simp add: drain_quiet_def)
  obtain fd where d: "drain_conf_input b = set_conf fd (conf_line b) b"
    using drain_conf_keeps [of b] by blast
  let ?b = "drain_conf_input b"
  have h: "\<not> link_halted True ?b" "lparser_invar (lb_parser ?b)" "drain_quiet ?b"
    using st par q by (simp_all add: d set_conf_def link_halted_def drain_quiet_def)
  have "drain_quiet (data_loop True ?b)"
    using data_loop_keeps [of ?b True drain_quiet] h drain_quiet_dispatch drain_quiet_disconnect
    by (auto simp: drain_quiet_def)
  with lora_core_data_loop [OF h(2,1) lora_core_drain_conf [OF core]] core par q
  show ?thesis by (auto simp: advance_drain_def drain_quiet_down)
qed

subsection \<open>A poll while configuring\<close>

text \<open>The configuration goes on, or it ends and the sink is told once, with its token.\<close>

definition config_account :: "LorahamBackend \<Rightarrow> LorahamBackend \<Rightarrow> bool" where
  "config_account b0 b \<longleftrightarrow> lb_sink b = lb_sink b0 \<and>
     ((lb_state b = Connecting \<or> lb_state b = LConfiguring) \<and> lb_out b = [] \<and>
        lb_config_token b = lb_config_token b0 \<or>
      (\<exists>r. (lb_state b = LReady \<and> applied r \<and> effective r = pending_cfg b0 \<or>
            lb_state b = Disconnected \<and> \<not> applied r) \<and>
         lb_out b = (if lb_sink b0 then [OnConfigureComplete (lb_config_token b0) r] else [])))"

lemma config_account_ended:
  assumes "lb_sink b = lb_sink b0"
    and "lb_state b = LReady \<and> applied r \<and> effective r = pending_cfg b0 \<or>
       lb_state b = Disconnected \<and> \<not> applied r"
    and "lb_out b = (if lb_sink b0 then [OnConfigureComplete (lb_config_token b0) r] else [])"
  shows "config_account b0 b"
  using assms unfolding config_account_def by blast

lemma config_account_fail:
  assumes "lb_sink b = lb_sink b0" "lb_out b = []" "lb_config_token b = lb_config_token b0"
  shows "config_account b0 (config_fail b)"
proof -
  let ?r = "\<lparr>applied = False, effective = zero_config\<rparr>"
  have "lb_state (config_fail b) = Disconnected" "lb_sink (config_fail b) = lb_sink b0"
    "lb_out (config_fail b) = (if lb_sink b0 then [OnConfigureComplete (lb_config_token b0) ?r] else [])"
    using assms by (simp_all add: config_fail_def call_sink_def reset_link_unconfigured_def Let_def)
  then show ?thesis by (intro config_account_ended [of _ b0 ?r]) simp_all
qed

lemma config_account_configure:
  assumes core: "lora_core b" and st: "lb_state b = LConfiguring" and out: "lb_out b = []"
  shows "lora_core (advance_configure b) \<and> config_account b (advance_configure b) \<and>
     (lparser_invar (lb_parser b) \<longrightarrow> lparser_invar (lb_parser (advance_configure b)))"
  using core st
proof (cases rule: advance_configure_cases)
  case (failed b')
  have "lb_parser (config_fail b') = parser_reset (lb_parser b')"
    by (simp add: config_fail_def Let_def)
  with failed out config_account_fail [of b' b] lora_core_config_fail [of b'] show ?thesis by simp
next
  case waiting
  with out show ?thesis by (simp add: config_account_def)
next
  case (ready b')
  have "lb_parser (config_succeed b') = lb_parser b'" by (simp add: config_succeed_def Let_def)
  moreover have "config_account b (config_succeed b')"
  proof -
    let ?r = "\<lparr>applied = True, effective = pending_cfg b\<rparr>"
    have "lb_state (config_succeed b') = LReady" "lb_sink (config_succeed b') = lb_sink b"
      "lb_out (config_succeed b') = (if lb_sink b then [OnConfigureComplete (lb_config_token b) ?r] else [])"
      using ready(5-9) out by (simp_all add: config_succeed_def call_sink_def Let_def)
    then show ?thesis by (intro config_account_ended [of _ b ?r]) simp_all
  qed
  ultimately show ?thesis using ready lora_core_succeed [of b'] by simp
qed

lemma config_account_connect:
  assumes core: "lora_core b" and st: "lb_state b = Connecting" and out: "lb_out b = []"
    and par: "lparser_invar (lb_parser b)"
  shows "lora_core (advance_connect b) \<and> config_account b (advance_connect b) \<and>
     lparser_invar (lb_parser (advance_connect b))"
proof -
  obtain cs t where p: "poll_connect (transport b) = (cs, t)" by fastforce
  note core' = lora_core_connected [OF core st p]
  let ?b = "b\<lparr>transport := t\<rparr>" and ?c = "b\<lparr>transport := t, lb_state := LConfiguring\<rparr>"
  have "lparser_invar (lb_parser (config_fail ?b))" using par by (simp add: config_fail_def Let_def)
  moreover have "config_account b (config_fail ?b)" using out by (intro config_account_fail) simp_all
  moreover have "config_account b ?b" using st out by (simp add: config_account_def)
  moreover have "config_account ?c x = config_account b x" for x
    by (simp add: config_account_def cong: if_cong)
  then have "config_account b (advance_configure ?c)"
    using config_account_configure [OF core'(2)] out by simp
  ultimately show ?thesis
    using core' config_account_configure [OF core'(2)] out par lora_core_config_fail
    by (cases cs) (simp_all add: advance_connect_def p)
qed

end
