(* ===== verification/Loraham_Contract.thy ===== *)
theory Loraham_Contract
  imports Loraham_Lemmas Xr_Server
begin

text \<open>
  The LoRaHAM backend keeps the contract of a radio backend: what a poll delivers, derived
  from the accounts of the single states, and the interpretation.
\<close>

lemma sink_simps [keeps]:
  "lb_sink (reset_link_unconfigured b) = lb_sink b" "lb_sink (enter_fault b) = lb_sink b"
  "lb_sink (call_sink e b) = lb_sink b" "lb_sink (log_tx_outcome o' b) = lb_sink b"
  "lb_sink (handle_disconnect b) = lb_sink b" "lb_sink (set_conf fd l b) = lb_sink b"
  "lb_sink (set_conf_out fd n b) = lb_sink b" "lb_sink (set_tx_out fd n b) = lb_sink b"
  by (simp_all add: reset_link_unconfigured_def enter_fault_def call_sink_def log_tx_outcome_def
      handle_disconnect_def set_conf_def set_conf_out_def set_tx_out_def)

lemma sink_dispatch [keeps]: "lb_sink (dispatch f b) = lb_sink b"
  by (auto simp: dispatch_def finish_tx_def resolve_drain_def Let_def keeps split: option.split prod.split)

lemma sink_data_loop:
  assumes "lparser_invar (lb_parser b)" and "\<not> link_halted draining b"
  shows "lb_sink (data_loop draining b) = lb_sink b"
  using data_loop_keeps [of b draining "\<lambda>c. lb_sink c = lb_sink b"] assms by (simp add: keeps)

lemma sink_pump_conf: "lb_sink (snd (snd (snd (pump_conf awaiting b)))) = lb_sink b"
  using pump_conf_keeps [of awaiting b] by (auto simp: keeps)

lemma pump_tx_write_frame: "\<exists>fd n. snd (pump_tx_write b) = set_tx_out fd n b"
proof (induction "length (tx_out b) - tx_out_off b" arbitrary: b rule: less_induct)
  case less
  obtain r fd where sd: "send_some (data_fd (transport b)) (drop (tx_out_off b) (tx_out b)) = (r, fd)"
    by fastforce
  have st: "b\<lparr>transport := (transport b)\<lparr>data_fd := fd\<rparr>\<rparr> = set_tx_out fd (tx_out_off b) b"
    "b = set_tx_out (data_fd (transport b)) (tx_out_off b) b"
    "b\<lparr>transport := (transport b)\<lparr>data_fd := fd\<rparr>, tx_out_off := m\<rparr> = set_tx_out fd m b" for m
    by (simp_all add: set_tx_out_def)
  have "\<exists>fd' n'. snd (pump_tx_write (set_tx_out fd (tx_out_off b + n) b)) = set_tx_out fd' n' b"
    if "0 < n" "tx_out_off b < length (tx_out b)" for n
    using less.hyps [of "set_tx_out fd (tx_out_off b + n) b"] that by auto
  then show ?case
    using sd st(2)
    by (auto simp: pump_tx_write.simps [of b] data_send_some_def Let_def st(1,3) split: option.split)
qed

lemma sink_operational:
  assumes "lora_core b" and "lparser_invar (lb_parser b)"
    and "lb_state b = LReady \<or> lb_state b = TxWriting \<or> lb_state b = TxPending"
  shows "lb_sink (advance_operational b) = lb_sink b"
proof -
  obtain ok got rdy b1 where p: "pump_conf False b = (ok, got, rdy, b1)" by (metis prod_cases4)
  obtain fd l where b1: "b1 = set_conf fd l b" using pump_conf_keeps [of False b] p by auto
  obtain r b2 where w: "pump_tx_write b1 = (r, b2)" by fastforce
  obtain fd2 n2 where b2: "b2 = set_tx_out fd2 n2 b1" using pump_tx_write_frame [of b1] w by auto
  have "lparser_invar (lb_parser b1)" "lparser_invar (lb_parser b2)"
    "lparser_invar (lb_parser (b2\<lparr>lb_state := TxPending\<rparr>))"
    using assms(2) by (simp_all add: b1 b2 set_conf_def set_tx_out_def)
  note loop = this [THEN sink_data_loop, of False]
  have s: "lb_sink b1 = lb_sink b" "lb_sink b2 = lb_sink b" "lb_state b1 = lb_state b" "lb_state b2 = lb_state b"
    by (simp_all add: b1 b2 keeps)
  from assms(3) show ?thesis
    using loop s by (cases r) (auto simp: advance_operational_def p w keeps link_halted_def)
qed

lemma sink_drain:
  assumes "lparser_invar (lb_parser b)" and "lb_state b = Draining"
  shows "lb_sink (advance_drain now b) = lb_sink b"
proof -
  obtain fd where d: "drain_conf_input b = set_conf fd (conf_line b) b"
    using drain_conf_keeps [of b] by blast
  have "lb_sink (data_loop True (drain_conf_input b)) = lb_sink (drain_conf_input b)"
    using assms by (intro sink_data_loop) (simp_all add: d set_conf_def link_halted_def)
  then show ?thesis by (simp add: advance_drain_def d keeps)
qed

subsection \<open>What a poll delivers\<close>

text \<open>The three kinds of poll: idle or draining, configuring, operational.\<close>

lemma poll_step_cases:
  assumes inv: "lora_inv b"
  obtains (quiet) "\<not> tx_open_lora b" "lb_state b \<noteq> Connecting" "lb_state b \<noteq> LConfiguring"
      "drain_quiet (poll_step now b)"
    | (configuring) "lb_state b = Connecting \<or> lb_state b = LConfiguring"
      "config_account b (poll_step now b)"
    | (operational) "lb_state b = LReady \<or> lb_state b = TxWriting \<or> lb_state b = TxPending"
      "poll_account (tx_open_lora b) (poll_step now b)"
proof -
  have core: "lora_core b" and par: "lparser_invar (lb_parser b)" and out: "lb_out b = []"
    using inv by (auto simp: lora_inv_def)
  have fail: "config_account b (config_fail b)" using out by (intro config_account_fail) simp_all
  show ?thesis
  proof (cases "lb_state b")
    case Disconnected
    with out show ?thesis by (intro quiet) (simp_all add: poll_step_def drain_quiet_def tx_open_lora_def)
  next
    case Faulted
    with out show ?thesis by (intro quiet) (simp_all add: poll_step_def drain_quiet_def tx_open_lora_def)
  next
    case Draining
    with advance_drain_quiet [OF core par out] show ?thesis
      by (intro quiet) (simp_all add: poll_step_def tx_open_lora_def)
  next
    case Connecting
    with config_account_connect [OF core _ out par] fail show ?thesis
      by (intro configuring) (simp_all add: poll_step_def)
  next
    case LConfiguring
    with config_account_configure [OF core _ out] fail show ?thesis
      by (intro configuring) (simp_all add: poll_step_def)
  qed (use poll_account_operational [OF core par out] in
      \<open>auto simp: poll_step_def intro!: operational\<close>)
qed

lemma poll_step_inv:
  assumes "lora_inv b"
  shows "lora_core (poll_step now b)" "lparser_invar (lb_parser (poll_step now b))"
    "lb_sink (poll_step now b) = lb_sink b"
proof -
  have core: "lora_core b" and par: "lparser_invar (lb_parser b)" and out: "lb_out b = []"
    using assms by (auto simp: lora_inv_def)
  have fail: "lora_core (config_fail b)" "lparser_invar (lb_parser (config_fail b))"
    "lb_sink (config_fail b) = lb_sink b"
    using core par by (auto simp: lora_core_config_fail config_fail_def Let_def keeps)
  have acc: "config_account b c \<Longrightarrow> lb_sink c = lb_sink b" for c by (simp add: config_account_def)
  have "lora_core (poll_step now b) \<and> lparser_invar (lb_parser (poll_step now b)) \<and>
      lb_sink (poll_step now b) = lb_sink b"
    using core par out fail acc config_account_connect [OF core _ out par]
      config_account_configure [OF core _ out] advance_drain_quiet [OF core par out]
      poll_account_operational [OF core par out] sink_operational [OF core par] sink_drain [OF par]
    by (cases "lb_state b") (simp_all add: poll_step_def)
  then show "lora_core (poll_step now b)" "lparser_invar (lb_parser (poll_step now b))"
    "lb_sink (poll_step now b) = lb_sink b" by auto
qed

subsection \<open>The contract\<close>

definition lora_cfg_open :: "LorahamBackend \<Rightarrow> u32 option" where
  "lora_cfg_open b =
     (if lb_state b = Connecting \<or> lb_state b = LConfiguring then Some (lb_config_token b) else None)"

lemma lora_inv_poll: "lora_inv b \<Longrightarrow> lora_inv (snd (poll_lora now b))"
  using poll_step_inv [of b now] by (simp add: poll_lora_def lora_inv_def Let_def)

lemma lora_core_flags [simp]:
  "lora_core (b\<lparr>lb_started := x\<rparr>) = lora_core b" "lora_core (b\<lparr>lb_sink := x\<rparr>) = lora_core b"
  by (simp_all add: lora_core_defs)

lemma submit_tx_lora_frame:
  "submit_tx_lora d b = (False, b) \<or>
     (\<exists>b' fd n. snd (submit_tx_lora d b) = reset_link_unconfigured b' \<and> b' = set_tx_out fd n
        (b\<lparr>tx_out := lora_tx_bytes d, tx_out_off := 0, tx_epoch := tx_epoch b + 1,
           pending_epoch := tx_epoch b + 1, lb_state := TxWriting\<rparr>) \<and> \<not> fst (submit_tx_lora d b)) \<or>
     (\<exists>b' fd n st. snd (submit_tx_lora d b) = b'\<lparr>lb_state := st\<rparr> \<and> b' = set_tx_out fd n
        (b\<lparr>tx_out := lora_tx_bytes d, tx_out_off := 0, tx_epoch := tx_epoch b + 1,
           pending_epoch := tx_epoch b + 1, lb_state := TxWriting\<rparr>) \<and>
        (st = TxWriting \<or> st = TxPending) \<and> fst (submit_tx_lora d b) \<and> ready_lora b)"
proof (cases "lb_started b \<and> lb_state b = LReady \<and> rf_payload d")
  case True
  let ?b = "b\<lparr>tx_out := lora_tx_bytes d, tx_out_off := 0, tx_epoch := tx_epoch b + 1,
    pending_epoch := tx_epoch b + 1, lb_state := TxWriting\<rparr>"
  obtain r b' where p: "pump_tx_write ?b = (r, b')" by fastforce
  obtain fd n where b': "b' = set_tx_out fd n ?b" using pump_tx_write_frame [of ?b] p by auto
  have st: "b' = b'\<lparr>lb_state := TxWriting\<rparr>" by (simp add: b' set_tx_out_def)
  have eq: "submit_tx_lora d b = (case r of TxFailed \<Rightarrow> (False, reset_link_unconfigured b')
      | TxComplete \<Rightarrow> (True, b'\<lparr>lb_state := TxPending\<rparr>) | TxPartial \<Rightarrow> (True, b'))"
    using True p by (simp add: submit_tx_lora_def encode_tx_packet_lora rf_payload_def [symmetric])
       (simp add: rf_payload_def)
  have rd: "ready_lora b" using True by (simp add: ready_lora_def)
  show ?thesis
  proof (cases r)
    case TxFailed
    with b' show ?thesis by (simp only: eq TxFlush.case fst_conv snd_conv) blast
  next
    case TxPartial
    with b' st rd show ?thesis by (simp only: eq TxFlush.case fst_conv snd_conv) blast
  next
    case TxComplete
    with b' rd show ?thesis by (simp only: eq TxFlush.case fst_conv snd_conv) blast
  qed
next
  case False
  then have "submit_tx_lora d b = (False, b)"
    by (auto simp: submit_tx_lora_def rf_payload_def)
  then show ?thesis by simp
qed

lemma begin_configure_lora_frame:
  "begin_configure_lora now c b = (0, b) \<or>
     (\<exists>t. snd (begin_configure_lora now c b) = b\<lparr>transport := t\<rparr> \<and> fst (begin_configure_lora now c b) = 0) \<or>
     (\<exists>t cmd. snd (begin_configure_lora now c b) =
        b\<lparr>transport := t, conf_out := conf_script cmd, conf_out_off := 0, awaiting_status := False,
          conf_line := [], lb_parser := parser_reset (lb_parser b), pending_cfg := c,
          lb_state := Connecting, config_deadline_at := now + ucast (config_timeout_ms b),
          lb_next_token := lb_next_token b + 1, lb_config_token := lb_next_token b + 1\<rparr> \<and>
        fst (begin_configure_lora now c b) = lb_next_token b + 1 \<and> \<not> tx_open_lora b)"
proof (cases "\<exists>band. validate_config c = (Ok, Some band) \<and> (lb_state b = Disconnected \<or> lb_state b = LReady)")
  case True
  then obtain band where v: "validate_config c = (Ok, Some band)"
    and st: "lb_state b = Disconnected \<or> lb_state b = LReady" by blast
  then obtain cmd where cmd: "build_set_command c = Some cmd" by (simp add: build_set_command_eq)
  obtain ok t where bc: "begin_connect band (transport b) = (ok, t)" by fastforce
  have op: "\<not> tx_open_lora b" using st by (auto simp: tx_open_lora_def)
  have "begin_configure_lora now c b = (if \<not> ok then (0, b\<lparr>transport := t\<rparr>) else (lb_next_token b + 1,
      b\<lparr>transport := t, conf_out := conf_script cmd, conf_out_off := 0, awaiting_status := False,
        conf_line := [], lb_parser := parser_reset (lb_parser b), pending_cfg := c,
        lb_state := Connecting, config_deadline_at := now + ucast (config_timeout_ms b),
        lb_next_token := lb_next_token b + 1, lb_config_token := lb_next_token b + 1\<rparr>))"
    using st by (auto simp: begin_configure_lora_def v cmd bc conf_script_def Let_def)
  with op show ?thesis by (cases ok) auto
next
  case False
  then have "begin_configure_lora now c b = (0, b)"
    by (cases "lb_state b")
       (simp_all add: begin_configure_lora_def split: prod.split ConfigError.split option.split)
  then show ?thesis by simp
qed

lemma poll_lora_simps [simp]:
  "fst (poll_lora now b) = lb_out (poll_step now b)"
  "tx_open_lora (snd (poll_lora now b)) = tx_open_lora (poll_step now b)"
  "lora_cfg_open (snd (poll_lora now b)) = lora_cfg_open (poll_step now b)"
  "lb_sink (snd (poll_lora now b)) = lb_sink (poll_step now b)"
  by (simp_all add: poll_lora_def Let_def tx_open_lora_def lora_cfg_open_def)

lemma config_account_out:
  assumes "config_account b0 b"
  shows "\<not> tx_open_lora b" "completes (lb_out b) = 0" "OnRx rx \<notin> set (lb_out b)"
    "OnTxComplete r \<notin> set (lb_out b)" "OnBackendFailure \<notin> set (lb_out b)" "\<not> lb_sink b0 \<Longrightarrow> lb_out b = []"
    "OnConfigureComplete t c \<in> set (lb_out b) \<Longrightarrow> t = lb_config_token b0 \<and> lora_cfg_open b = None"
  using assms by (auto simp: config_account_def tx_open_lora_def lora_cfg_open_def split: if_splits)

lemma poll_tx_laws:
  assumes inv: "lora_inv b"
  shows "tx_open_lora (poll_step now b) \<Longrightarrow> tx_open_lora b"
    "completes (lb_out (poll_step now b)) \<le> 1"
    "OnTxComplete r \<in> set (lb_out (poll_step now b)) \<Longrightarrow>
       tx_open_lora b \<and> \<not> tx_open_lora (poll_step now b)"
    "OnBackendFailure \<in> set (lb_out (poll_step now b)) \<Longrightarrow> \<not> tx_open_lora (poll_step now b)"
    "lb_sink b \<Longrightarrow> tx_open_lora b \<Longrightarrow> \<not> tx_open_lora (poll_step now b) \<Longrightarrow>
       0 < completes (lb_out (poll_step now b)) \<or> OnBackendFailure \<in> set (lb_out (poll_step now b))"
proof -
  let ?b = "poll_step now b"
  have "(tx_open_lora ?b \<longrightarrow> tx_open_lora b) \<and> completes (lb_out ?b) \<le> 1 \<and>
     (OnTxComplete r \<in> set (lb_out ?b) \<longrightarrow> tx_open_lora b \<and> \<not> tx_open_lora ?b) \<and>
     (OnBackendFailure \<in> set (lb_out ?b) \<longrightarrow> \<not> tx_open_lora ?b) \<and>
     (lb_sink b \<and> tx_open_lora b \<and> \<not> tx_open_lora ?b \<longrightarrow>
        0 < completes (lb_out ?b) \<or> OnBackendFailure \<in> set (lb_out ?b))"
    using inv
  proof (cases rule: poll_step_cases [of b now])
    case quiet
    then show ?thesis by (auto simp: drain_quiet_def tx_open_lora_def)
  next
    case configuring
    then have "\<not> tx_open_lora b" by (auto simp: tx_open_lora_def)
    with config_account_out(1,2,4,5) [OF configuring(2)] show ?thesis by simp
  next
    case operational
    have s: "lb_sink ?b = lb_sink b" by (rule poll_step_inv(3) [OF inv])
    note acc = operational(2) [unfolded poll_account_def]
    from acc completes_pos [of r "lb_out ?b"] s show ?thesis
      by (auto split: if_splits)
  qed
  then show "tx_open_lora ?b \<Longrightarrow> tx_open_lora b" "completes (lb_out ?b) \<le> 1"
    "OnTxComplete r \<in> set (lb_out ?b) \<Longrightarrow> tx_open_lora b \<and> \<not> tx_open_lora ?b"
    "OnBackendFailure \<in> set (lb_out ?b) \<Longrightarrow> \<not> tx_open_lora ?b"
    "lb_sink b \<Longrightarrow> tx_open_lora b \<Longrightarrow> \<not> tx_open_lora ?b \<Longrightarrow>
       0 < completes (lb_out ?b) \<or> OnBackendFailure \<in> set (lb_out ?b)"
    by blast+
qed

lemma poll_event_laws:
  assumes inv: "lora_inv b"
  shows "OnRx rx \<in> set (lb_out (poll_step now b)) \<Longrightarrow> rx_wf rx"
    "\<not> lb_sink b \<Longrightarrow> lb_out (poll_step now b) = []"
    "OnConfigureComplete t c \<in> set (lb_out (poll_step now b)) \<Longrightarrow>
       lora_cfg_open b = Some t \<and> lora_cfg_open (poll_step now b) = None"
proof -
  let ?b = "poll_step now b"
  have s: "lb_sink ?b = lb_sink b" by (rule poll_step_inv(3) [OF inv])
  have "(OnRx rx \<in> set (lb_out ?b) \<longrightarrow> rx_wf rx) \<and> (\<not> lb_sink b \<longrightarrow> lb_out ?b = []) \<and>
     (OnConfigureComplete t c \<in> set (lb_out ?b) \<longrightarrow>
        lora_cfg_open b = Some t \<and> lora_cfg_open ?b = None)"
    using inv
  proof (cases rule: poll_step_cases [of b now])
    case quiet
    then show ?thesis by (auto simp: drain_quiet_def)
  next
    case configuring
    then show ?thesis
      using config_account_out(3,6) [OF configuring(2)] config_account_out(7) [OF configuring(2), of t c]
      by (auto simp: lora_cfg_open_def)
  next
    case operational
    with s show ?thesis by (auto simp: poll_account_def)
  qed
  then show "OnRx rx \<in> set (lb_out ?b) \<Longrightarrow> rx_wf rx" "\<not> lb_sink b \<Longrightarrow> lb_out ?b = []"
    "OnConfigureComplete t c \<in> set (lb_out ?b) \<Longrightarrow> lora_cfg_open b = Some t \<and> lora_cfg_open ?b = None"
    by blast+
qed

interpretation lora: radio_backend lora_vtable lora_inv lb_sink tx_open_lora lora_cfg_open
proof (unfold_locales, goal_cases)
  case (1 b x)
  then show ?case by (simp add: lora_inv_def set_sink_lora_def)
next
  case (2 b now c)
  then show ?case
    using lora_core_begin_configure [of b now c] begin_configure_lora_frame [of now c b]
    by (auto simp: lora_inv_def)
next
  case (3 b)
  then show ?case by (simp add: lora_inv_def start_lora_def)
next
  case (4 b)
  then show ?case
    using lora_core_stop [of b] by (auto simp: lora_inv_def stop_lora_def reset_link_unconfigured_def)
next
  case (5 b d)
  then show ?case
    using lora_core_submit [of b d] submit_tx_lora_frame [of d b]
    by (auto simp: lora_inv_def reset_link_unconfigured_def set_tx_out_def)
next
  case (6 b now)
  then show ?case
    using lora_core_abandon [of b now]
    by (auto simp: lora_inv_def abandon_pending_tx_lora_def reset_link_unconfigured_def)
next
  case (7 b now)
  then show ?case by (simp add: lora_inv_poll)
next
  case (8 x b)
  then show ?case by (simp add: set_sink_lora_def)
next
  case (9 now c b)
  then show ?case using begin_configure_lora_frame [of now c b] by auto
next
  case (10 b)
  then show ?case by (simp add: start_lora_def)
next
  case (11 b)
  then show ?case by (simp add: stop_lora_def keeps)
next
  case (12 d b)
  then show ?case using submit_tx_lora_frame [of d b] by (auto simp: keeps)
next
  case (13 now b)
  then show ?case by (simp add: abandon_pending_tx_lora_def keeps)
next
  case (14 b now)
  then show ?case using poll_step_inv(3) [of b now] by simp
next
  case (15 b now)
  then show ?case using poll_event_laws(2) by simp
next
  case (16 b rx now)
  then show ?case using poll_event_laws(1) by simp
next
  case (17 b d)
  then show ?case
    using submit_tx_lora_frame [of d b] by (auto simp: tx_open_lora_def ready_lora_def)
next
  case (18 b d)
  then show ?case using submit_tx_lora_frame [of d b] by (auto simp: tx_open_lora_def)
next
  case (19 b r now)
  then show ?case using poll_tx_laws(3) by simp
next
  case (20 b now)
  then show ?case using poll_tx_laws(2) [of b now] by (simp add: completes_def)
next
  case (21 b now)
  then show ?case using poll_tx_laws(4) by simp
next
  case (22 b now)
  then show ?case using poll_tx_laws(1) by simp
next
  case (23 b now)
  then show ?case using poll_tx_laws(5) [of b now] completes_ex by auto
next
  case (24 b now)
  then show ?case by (auto simp: tx_open_lora_def abandon_pending_tx_lora_def)
next
  case (25 x b)
  then show ?case by (simp add: tx_open_lora_def set_sink_lora_def)
next
  case (26 b)
  then show ?case by (simp add: tx_open_lora_def start_lora_def)
next
  case (27 b)
  then show ?case by (auto simp: tx_open_lora_def stop_lora_def split: if_splits)
next
  case (28 b now c)
  then show ?case using begin_configure_lora_frame [of now c b] by (auto simp: tx_open_lora_def)
next
  case (29 b now c t b')
  then show ?case
    using begin_configure_lora_frame [of now c b] by (auto simp: lora_cfg_open_def)
next
  case (30 b t res now)
  then show ?case using poll_event_laws(3) by simp
qed

end
