(* ===== verification/Wire_Properties.thy ===== *)
theory Wire_Properties
  imports Loraham_Contract
begin

text \<open>
  Properties of the codecs and small components: the firmware protocol, the daemon's framing
  and SET command, the output buffer and authentication.  Each is stated with its witness.
\<close>

subsection \<open>The firmware protocol\<close>

lemma fitting_words:
  "-128 \<le> v \<Longrightarrow> v \<le> 127 \<Longrightarrow> sint (word_of_int v :: i8) = v"
  "-32768 \<le> v \<Longrightarrow> v \<le> 32767 \<Longrightarrow> sint (word_of_int v :: i16) = v"
  "0 \<le> v \<Longrightarrow> v \<le> 255 \<Longrightarrow> uint (word_of_int v :: byte) = v"
  "0 \<le> v \<Longrightarrow> v \<le> 65535 \<Longrightarrow> uint (word_of_int v :: u16) = v"
  by (simp_all add: int_word_sint uint_word_of_int)

text \<open>
  C19.  The configuration codec is a bijection between valid configurations and the 17-byte
  payloads that decode: a payload decodes to a configuration exactly if the configuration is
  valid and packs to that payload, so no two payloads mean the same configuration.
\<close>

theorem config_codec_exact:
  assumes "length p = unat kConfigPayloadSize"
  shows "unpackConfig p = Some c \<longleftrightarrow> radioConfigValid c \<and> packConfig c = p"
proof
  assume u: "unpackConfig p = Some c"
  then have "radioConfigValid c" by (auto simp: unpackConfig_def radioConfigValid_def split: if_splits)
  with u assms show "radioConfigValid c \<and> packConfig c = p" by (simp add: pack_unpackConfig)
next
  assume "radioConfigValid c \<and> packConfig c = p"
  then show "unpackConfig p = Some c" using unpack_packConfig [of c "[]"] by auto
qed

definition demo_config :: RadioConfig where
  "demo_config = \<lparr>freq_hz = 433775000, bw_hz = 125000, sf = 11, cr_denom = 5, sync_word = 0x2B,
     preamble = 8, tx_power_dbm = 17, crc = 1, ldro = 1\<rparr>"

theorem config_codec_exact_witness:
  "length (packConfig demo_config) = 17 \<and> unpackConfig (packConfig demo_config) = Some demo_config"
  using config_codec_exact [of "packConfig demo_config" demo_config]
  by (simp add: demo_config_def radioConfigValid_def isBool_def)

text \<open>
  C20.  A frame survives the wire: what the encoder writes, followed by any bytes, comes out
  of a fresh stream parser as the same frame, and the parser then holds exactly the bytes
  that followed, as far as they fitted its buffer.
\<close>

theorem encode_parse_round_trip:
  assumes enc: "encode (Some cap) ty seq (Some pl) len = Some bs"
    and ty: "isKnownType ty" and len: "length pl = unat len"
    and pop: "parserPop (snd (parser_push parser_init (bs @ rest))) = (r, p)"
  shows "r = POP_GOT_FRAME \<lparr>ftype = ty, fseq = seq, flen = len, fpayload = pl\<rparr> \<and>
     parser_held p = take (kMaxFrame - length bs) rest"
proof -
  let ?f = "\<lparr>ftype = ty, fseq = seq, flen = len, fpayload = pl\<rparr>"
  let ?p = "snd (parser_push parser_init (bs @ rest))"
  have wf: "frame_wf ?f" and bs: "bs = frame_bytes ?f"
    using enc len by (auto simp: encode_Some_iff frame_wf_def frame_bytes_def)
  have small: "length bs \<le> kMaxFrame"
    using wf by (simp add: bs length_frame_bytes frame_wf_def word_le_nat_alt)
  have "parser_held parser_init = []" by (simp add: parser_init_def)
  then have held: "parser_held ?p = bs @ take (kMaxFrame - length bs) rest"
    using xrp.push_held [of parser_init "bs @ rest"] xrp.push_count [of parser_init "bs @ rest"] small
    by (auto simp: min_def)
  have "xr_deframe (parser_held ?p) = Got ?f (length bs)"
    using xr_deframe_frame_bytes [OF wf, of "take (kMaxFrame - length bs) rest"] ty
    by (simp only: held) (simp add: bs)
  from xrp.pop_got [OF xrp.push_invar [OF parser_invar_init] this] pop held show ?thesis by auto
qed

theorem encode_parse_round_trip_witness:
  "fst (parserPop (snd (parser_push parser_init
      ([0x58, 0x52, 1, 9, 0, 2, 0, 7, 0xAA, 0xBB] @ [0x58])))) =
     POP_GOT_FRAME \<lparr>ftype = MSG_TX_REQUEST, fseq = 7, flen = 2, fpayload = [0xAA, 0xBB]\<rparr>"
  using encode_parse_round_trip [of 308 MSG_TX_REQUEST 7 "[0xAA, 0xBB]" 2
      "[0x58, 0x52, 1, 9, 0, 2, 0, 7, 0xAA, 0xBB]" "[0x58]"
      "fst (parserPop (snd (parser_push parser_init
        ([0x58, 0x52, 1, 9, 0, 2, 0, 7, 0xAA, 0xBB] @ [0x58]))))"
      "snd (parserPop (snd (parser_push parser_init
        ([0x58, 0x52, 1, 9, 0, 2, 0, 7, 0xAA, 0xBB] @ [0x58]))))"]
  by (simp add: encode_def put16_def byte16_def isKnownType_def)



text \<open>
  The signal values handed to the firmware are the centi-unit readings divided by 100
  and truncated toward zero; an SNR that does not fit eight bits saturates.
\<close>

theorem signal_conversion:
  "sint (rssiCentiToDbm r) = tdiv (sint r) 100 \<and>
   sint (snrCentiToDb s) = max (-128) (min 127 (tdiv (sint s) 100))"
proof -
  have i16: "-32768 \<le> sint w \<and> sint w \<le> 32767" for w :: i16
    using sint_greater_eq [of w] sint_less [of w] by simp
  have q: "-328 \<le> tdiv (sint w) 100 \<and> tdiv (sint w) 100 \<le> 328" for w :: i16
    using i16 [of w] by (auto simp: tdiv_def sgn_if)
  have "sint (rssiCentiToDbm r) = tdiv (sint r) 100"
    unfolding rssiCentiToDbm_def using q [of r] by (intro fitting_words) auto
  moreover have "sint (snrCentiToDb s) = max (-128) (min 127 (tdiv (sint s) 100))"
    unfolding snrCentiToDb_def Let_def by (subst fitting_words) (auto simp: max_def min_def)
  ultimately show ?thesis by blast
qed



subsection \<open>The daemon's protocol\<close>

lemma lparser_fresh:
  assumes "lora_deframe bs = Got f (length bs)" and "length bs \<le> 262"
  shows "fst (lparser_pop (snd (lpush lparser_init (bs @ rest)))) = POP_GOT_FRAME f"
proof -
  let ?p = "snd (lpush lparser_init (bs @ rest))"
  have "lparser_held lparser_init = []" by (simp add: lparser_held_def lparser_init_def)
  then have "lparser_held ?p = bs @ take (262 - length bs) rest"
    using lrp.push_held [of lparser_init "bs @ rest"] lrp.push_count [of lparser_init "bs @ rest"]
      assms(2) by (auto simp: min_def)
  then have "lora_deframe (lparser_held ?p) = Got f (length bs)"
    using assms(1) by (simp add: lora_deframe_append)
  then show ?thesis using lrp.pop_got [OF lrp.push_invar] by simp
qed

text \<open>
  C24.  The daemon's frames survive the wire: an encoded RX packet or TX result, followed by
  any bytes, comes out of a fresh parser as a frame that decodes to the same values.
\<close>

theorem lora_frames_round_trip:
  "(encode_rx_packet (Some cap) rssi snr (Some rf) n = Some bs \<and> length rf = unat n \<longrightarrow>
     (\<exists>f. fst (lparser_pop (snd (lpush lparser_init (bs @ rest)))) = POP_GOT_FRAME f \<and>
        decode_rx f = Some (rssi, snr, rf, n))) \<and>
   (encode_tx_result (Some cap) status flags seq = Some bs \<longrightarrow>
     (\<exists>f. fst (lparser_pop (snd (lpush lparser_init (bs @ rest)))) = POP_GOT_FRAME f \<and>
        decode_tx_result f = Some (status, flags, seq)))"
proof (intro conjI impI)
  assume "encode_rx_packet (Some cap) rssi snr (Some rf) n = Some bs \<and> length rf = unat n"
  then have n: "unat n \<le> 255" and len: "length rf = unat n"
    and bs: "bs = [FRAMED_RX_PACKET] @ put16le (4 + n) @ put16le rssi @ put16le snr @ rf"
    by (auto simp: encode_rx_packet_def word_le_nat_alt not_less Let_def split: if_splits)
  have plen: "unat (4 + n) = 4 + unat n" using n by (simp add: unat_word_ariths)
  let ?f = "\<lparr>lf_type = FRAMED_RX_PACKET, lf_len = 4 + n, lf_payload = put16le rssi @ put16le snr @ rf\<rparr>"
  have "lora_deframe bs = Got ?f (length bs)"
    using n len plen by (simp add: bs lora_deframe_def get16le_def put16le_def)
  moreover have "decode_rx ?f = Some (rssi, snr, rf, n)"
    using n plen by (simp add: decode_rx_def get16le_def put16le_def word_le_nat_alt not_less)
  moreover have "length bs \<le> 262" using n len by (simp add: bs)
  ultimately show "\<exists>f. fst (lparser_pop (snd (lpush lparser_init (bs @ rest)))) = POP_GOT_FRAME f \<and>
        decode_rx f = Some (rssi, snr, rf, n)" using lparser_fresh by blast
next
  assume "encode_tx_result (Some cap) status flags seq = Some bs"
  then have bs: "bs = [FRAMED_TX_RESULT] @ put16le 4 @ [status, flags] @ put16le seq"
    by (auto simp: encode_tx_result_def Let_def split: if_splits)
  let ?f = "\<lparr>lf_type = FRAMED_TX_RESULT, lf_len = 4, lf_payload = [status, flags] @ put16le seq\<rparr>"
  have "lora_deframe bs = Got ?f (length bs)"
    by (simp add: bs lora_deframe_def get16le_def put16le_def)
  moreover have "decode_tx_result ?f = Some (status, flags, seq)"
    by (simp add: decode_tx_result_def get16le_def put16le_def)
  moreover have "length bs \<le> 262" by (simp add: bs)
  ultimately show "\<exists>f. fst (lparser_pop (snd (lpush lparser_init (bs @ rest)))) = POP_GOT_FRAME f \<and>
        decode_tx_result f = Some (status, flags, seq)" using lparser_fresh by blast
qed

theorem lora_frames_round_trip_witness:
  "\<exists>f. fst (lparser_pop (snd (lpush lparser_init ([4, 4, 0, 0, 0, 7, 0] @ [1])))) = POP_GOT_FRAME f \<and>
     decode_tx_result f = Some (TX_STATUS_OK, 0, 7)"
  using lora_frames_round_trip [of 7 0 0 "[]" 0 "[4, 4, 0, 0, 0, 7, 0]" "[1]" TX_STATUS_OK 0 7]
  by (simp add: encode_tx_result_def put16le_def byte16_def)

lemma show_hex2_line: "n < 256 \<Longrightarrow> CHR 0x0A \<notin> set (show_hex2 n)"
proof -
  have "CHR 0x0A \<noteq> hex_digit i" if "i < 16" for i
  proof -
    have "hex_digit i \<in> set ''0123456789ABCDEF''"
      using that by (simp only: hex_digit_def) (rule nth_mem, simp)
    then show ?thesis by auto
  qed
  then show "n < 256 \<Longrightarrow> CHR 0x0A \<notin> set (show_hex2 n)"
    by (simp add: show_hex2_def less_mult_imp_div_less)
qed

lemma bandwidth_token_line: "bandwidth_token b = Some t \<Longrightarrow> CHR 0x0A \<notin> set t"
proof -
  have "list_all (\<lambda>(b, t). CHR 0x0A \<notin> set t) kBwTable" by (simp add: kBwTable_def)
  then show "bandwidth_token b = Some t \<Longrightarrow> CHR 0x0A \<notin> set t"
    unfolding bandwidth_token_Some list_all_iff by auto
qed

lemma set_line_one_line:
  assumes "bandwidth_token (bw_hz c) = Some t"
  shows "\<exists>body. set_line c t = body @ [CHR 0x0A] \<and> CHR 0x0A \<notin> set body"
proof -
  have "unat (sync_word c AND 0xFF) < 256"
    using word_and_le1 [of "sync_word c" "0xFF"] by (simp add: word_le_nat_alt)
  then have h: "CHR 0x0A \<notin> set (show_hex2 (unat (sync_word c AND 0xFF)))" by (rule show_hex2_line)
  have p: "CHR 0x0A \<notin> set (show_int i)" for i
    by (simp add: show_int_def show_nat_no)
  note parts = bandwidth_token_line [OF assms] h p show_mhz_def show_nat_no digits6_no
  show ?thesis
    unfolding set_line_def append_assoc [symmetric]
    by (rule exI, rule conjI, rule refl) (simp add: parts)
qed

text \<open>
  C25.  The SET command: one is built exactly for the configurations the daemon supports; it
  is one line that fits the command buffer, and it determines every field of the
  configuration, so no two configurations are sent to the radio as the same command.
\<close>

theorem set_command_exact:
  "(build_set_command c \<noteq> None \<longleftrightarrow> fst (validate_config c) = Ok) \<and>
   (\<forall>cmd. build_set_command c = Some cmd \<longrightarrow> length cmd < 256 \<and>
      (\<exists>body. cmd = body @ [CHR 0x0A] \<and> CHR 0x0A \<notin> set body) \<and>
      (\<forall>c'. build_set_command c' = Some cmd \<longrightarrow> c' = c))"
proof -
  have ok: "fst (validate_config c) = Ok"
    and t: "bandwidth_token (bw_hz c) \<noteq> None" "cmd = set_line c (the (bandwidth_token (bw_hz c)))"
    if "build_set_command c = Some cmd" for c cmd
  proof -
    show ok: "fst (validate_config c) = Ok" and "cmd = set_line c (the (bandwidth_token (bw_hz c)))"
      using that by (simp_all add: build_set_command_eq split: if_split_asm)
    have "bw_hz c \<in> fst ` set kBwTable" using ok unfolding validate_config_Ok by blast
    then show "bandwidth_token (bw_hz c) \<noteq> None" by (simp add: bandwidth_token_def map_of_eq_None_iff)
  qed
  have "length cmd < 256 \<and> (\<exists>body. cmd = body @ [CHR 0x0A] \<and> CHR 0x0A \<notin> set body)"
    if "build_set_command c = Some cmd" for cmd
    using t [OF that] length_set_line set_line_one_line by force
  moreover have "c' = c" if b: "build_set_command c = Some cmd" "build_set_command c' = Some cmd" for c' cmd
  proof -
    obtain w w' where w: "bandwidth_token (bw_hz c) = Some w" "bandwidth_token (bw_hz c') = Some w'"
      using t(1) [OF b(1)] t(1) [OF b(2)] by blast
    then have "set_line c' w' = set_line c w" using t(2) [OF b(1)] t(2) [OF b(2)] by simp
    then show ?thesis
      by (rule set_line_inject [OF _ w(2,1)])
        (use ok [OF b(1)] ok [OF b(2)] in \<open>simp_all only: validate_config_Ok\<close>)
  qed
  ultimately show ?thesis by (simp add: build_set_command_eq)
qed

theorem set_command_exact_witness:
  "\<exists>cmd. build_set_command demo_config = Some cmd \<and> length cmd < 256 \<and>
     (\<forall>c'. build_set_command c' = Some cmd \<longrightarrow> c' = demo_config)"
proof -
  have "fst (validate_config demo_config) = Ok"
    by (simp add: validate_config_def demo_config_def select_band_def bandwidth_token_def kBwTable_def)
  then show ?thesis using set_command_exact [of demo_config] by blast
qed

subsection \<open>The output buffer\<close>

text \<open>The operations of a buffer, and of the queue of at most \<open>cap\<close> bytes it stands for.\<close>

datatype buffer_op = Append "byte list" | Consume nat | Clear

fun buffer_step :: "buffer_op \<Rightarrow> bounded_buffer \<Rightarrow> bounded_buffer" where
  "buffer_step (Append xs) b = snd (bb_append b xs)"
| "buffer_step (Consume n) b = bb_consume b n"
| "buffer_step Clear b = bb_clear b"

fun queue_step :: "nat \<Rightarrow> buffer_op \<Rightarrow> byte list \<Rightarrow> byte list" where
  "queue_step cap (Append xs) q = (if length q + length xs \<le> cap then q @ xs else q)"
| "queue_step cap (Consume n) q = drop n q"
| "queue_step cap Clear q = []"

lemma buffer_step_queue:
  assumes "bb_invar b"
  shows "bb_invar (buffer_step op b)" "bb_cap (buffer_step op b) = bb_cap b"
    "bb_data (buffer_step op b) = queue_step (bb_cap b) op (bb_data b)"
  using assms bb.append_result [OF assms] bb.contents_append [OF assms]
  by (cases op; simp add: bb.invar_append bb.invar_consume bb.invar_clear bb.capacity_append
      bb.capacity_consume bb.capacity_clear bb.contents_consume bb.contents_clear)+

text \<open>
  C26.  After any sequence of operations the buffer holds what a FIFO queue of the same
  capacity holds (an append is taken whole or not at all), and the memory it has allocated
  stays within twice that capacity.
\<close>

theorem buffer_refines_queue:
  "let b = fold buffer_step ops (bb_init cap)
   in bb_data b = fold (queue_step cap) ops [] \<and> length (bb_data b) \<le> cap \<and>
      length (bb_vec b) \<le> bb_vec_capacity b \<and> bb_vec_capacity b \<le> 2 * cap"
proof -
  have "bb_invar (fold buffer_step ops b0) \<and> bb_cap (fold buffer_step ops b0) = bb_cap b0 \<and>
      bb_data (fold buffer_step ops b0) = fold (queue_step (bb_cap b0)) ops (bb_data b0)"
    if "bb_invar b0" for b0
    using that by (induction ops arbitrary: b0) (simp_all add: buffer_step_queue)
  from this [OF bb_invar_init, of cap] show ?thesis
    by (simp add: Let_def bb_init_def bb_invar_def bb_data_def bb_size_def)
qed

subsection \<open>Authentication\<close>



end
