(* ===== verification/Backend_Properties.thy ===== *)
theory Backend_Properties
  imports Wire_Properties
begin

text \<open>
  Properties of the LoRaHAM backend: what it writes to the daemon, what it reports to its
  client, and how it recovers, for every script of the kernel's answers.
\<close>

subsection \<open>Sequences of operations\<close>

datatype lora_op =
    Configure u64 RadioConfig
  | Start
  | Stop
  | Submit "byte list"
  | Abandon u64
  | Poll u64
  | SetSink bool

fun lora_step :: "lora_op \<Rightarrow> LorahamBackend \<Rightarrow> LorahamBackend" where
  "lora_step (Configure now c) b = snd (begin_configure_lora now c b)"
| "lora_step Start b = start_lora b"
| "lora_step Stop b = stop_lora b"
| "lora_step (Submit d) b = snd (submit_tx_lora d b)"
| "lora_step (Abandon now) b = abandon_pending_tx_lora now b"
| "lora_step (Poll now) b = snd (poll_lora now b)"
| "lora_step (SetSink x) b = set_sink_lora x b"

lemma lora_inv_step: "lora_inv b \<Longrightarrow> lora_inv (lora_step op b)"
  using lora.binv_set_sink [of b] lora.binv_begin_configure [of b] lora.binv_start [of b]
    lora.binv_stop [of b] lora.binv_submit_tx [of b] lora.binv_abandon [of b] lora.binv_poll [of b]
  by (cases op) simp_all

lemma lora_inv_new:
  assumes "\<forall>i \<in> set cs. fresh_item i"
  shows "lora_inv (new_loraham (new_transport p cs rs) cto dto)"
  using assms by (simp add: lora_inv_def lora_core_def new_loraham_def new_transport_def tx_open_lora_def)

lemma lora_inv_run: "lora_inv b \<Longrightarrow> lora_inv (fold lora_step ops b)"
  by (induction ops arbitrary: b) (simp_all add: lora_inv_step)

lemma data_ok_frames:
  assumes "data_ok st out off fd"
  shows "\<exists>ds part. (\<forall>d \<in> set ds. 0 < length d \<and> length d \<le> 255) \<and>
     written fd = concat (map lora_tx_bytes ds) @ part \<and>
     (part \<noteq> [] \<longrightarrow> st = TxWriting \<and> (\<exists>rest. rest \<noteq> [] \<and> out = part @ rest)) \<and>
     (st = TxPending \<or> st = Draining \<longrightarrow> ds \<noteq> [] \<and> out = lora_tx_bytes (last ds))"
proof -
  have whole: ?thesis if "st = TxPending \<or> st = Draining"
  proof -
    from that assms obtain ds e where "\<forall>d \<in> set ds. rf_payload d" "rf_payload e" "out = lora_tx_bytes e"
      "written fd = tx_stream (ds @ [e])" by auto
    with that show ?thesis
      by (intro exI [of _ "ds @ [e]"] exI [of _ "[]"]) (auto simp: rf_payload_def tx_stream_def)
  qed
  show ?thesis
  proof (cases st)
    case TxWriting
    then obtain ds e where e: "\<forall>d \<in> set ds. rf_payload d" "out = lora_tx_bytes e" "off < length out"
      "written fd = tx_stream ds @ take off out" using assms by auto
    then have "\<exists>rest. rest \<noteq> [] \<and> out = take off out @ rest" by (intro exI [of _ "drop off out"]) simp
    with e TxWriting show ?thesis
      by (intro exI [of _ ds] exI [of _ "take off out"]) (simp add: rf_payload_def tx_stream_def)
  next
    case LReady
    then obtain ds where "\<forall>d \<in> set ds. rf_payload d" "written fd = tx_stream ds" using assms by auto
    with LReady show ?thesis
      by (intro exI [of _ ds] exI [of _ "[]"]) (auto simp: rf_payload_def tx_stream_def)
  qed (use assms whole in \<open>auto intro!: exI [of _ "[]"]\<close>)
qed

text \<open>
  C29.  What the daemon sees.  After any sequence of operations the DATA socket has carried
  whole TX frames of 1 to 255 bytes, followed by a proper prefix of one more frame only while
  the backend is writing; a transmission the daemon may own has been written completely.
  When the link is configured, its CONF socket has carried exactly the commands of the
  configuration that was applied.
\<close>

theorem daemon_sees_whole_frames:
  assumes "\<forall>i \<in> set cs. fresh_item i"
    and "fold lora_step ops (new_loraham (new_transport p cs rs) cto dto) = b"
  shows "(\<exists>ds part. (\<forall>d \<in> set ds. 0 < length d \<and> length d \<le> 255) \<and>
       written (data_fd (transport b)) = concat (map lora_tx_bytes ds) @ part \<and>
       (part \<noteq> [] \<longrightarrow> lb_state b = TxWriting \<and> (\<exists>rest. rest \<noteq> [] \<and> tx_out b = part @ rest)) \<and>
       (lb_state b = TxPending \<or> lb_state b = Draining \<longrightarrow> ds \<noteq> [] \<and> tx_out b = lora_tx_bytes (last ds))) \<and>
     (lb_state b = LReady \<or> lb_state b = TxWriting \<or> lb_state b = TxPending \<longrightarrow> conf_fd (transport b) \<noteq> None \<longrightarrow>
       (\<exists>cmd. build_set_command (pending_cfg b) = Some cmd \<and>
          written (conf_fd (transport b)) = bytes_of_string (conf_script cmd)))"
proof -
  have inv: "lora_inv b" using assms lora_inv_run lora_inv_new by blast
  then have d: "data_ok (lb_state b) (tx_out b) (tx_out_off b) (data_fd (transport b))"
    and c: "conf_ok (lb_state b) (pending_cfg b) (conf_out b) (conf_out_off b) (awaiting_status b)
       (conf_fd (transport b))"
    by (simp_all add: lora_inv_def lora_core_def)
  have "lb_state b = LReady \<or> lb_state b = TxWriting \<or> lb_state b = TxPending \<longrightarrow>
     conf_fd (transport b) \<noteq> None \<longrightarrow> (\<exists>cmd. build_set_command (pending_cfg b) = Some cmd \<and>
          written (conf_fd (transport b)) = bytes_of_string (conf_script cmd))"
    using c by auto
  with data_ok_frames [OF d] show ?thesis by blast
qed

text \<open>A backend whose daemon accepts both connects, for the witnesses.\<close>

definition demo_link :: Socket where
  "demo_link = \<lparr>rx_script = [], tx_script = [], rx_taken = [], tx_written = []\<rparr>"

definition demo_lora :: LorahamBackend where
  "demo_lora = new_loraham (new_transport \<lparr>data433 = ''/d'', conf433 = ''/c'', data868 = ''/d'', conf868 = ''/c''\<rparr>
     [ConnNow demo_link, ConnNow demo_link] []) 2000 30000"

lemma demo_lora_inv: "lora_inv demo_lora" "lb_state demo_lora = Disconnected"
  unfolding demo_lora_def
  by (rule lora_inv_new, simp add: demo_link_def) (simp add: new_loraham_def)

theorem daemon_sees_whole_frames_witness:
  "\<exists>ds part. written (data_fd (transport (fold lora_step [Configure 0 demo_config, Poll 1] demo_lora))) =
     concat (map lora_tx_bytes ds) @ part"
  using daemon_sees_whole_frames [of "[ConnNow demo_link, ConnNow demo_link]" "[Configure 0 demo_config, Poll 1]"
      "\<lparr>data433 = ''/d'', conf433 = ''/c'', data868 = ''/d'', conf868 = ''/c''\<rparr>" "[]" 2000 30000]
  by (auto simp: demo_link_def demo_lora_def)

subsection \<open>What the client is told\<close>

text \<open>
  C30.  Transmission results.  One poll delivers at most one result, and only for a
  transmission that was accepted and is still open, which it closes; an open transmission of
  an attached client ends only with its result or with a failure of the backend; a poll never
  opens one; and a detached client hears nothing.
\<close>

theorem poll_reports_each_tx_once:
  assumes "lora_inv b" and "poll_lora now b = (es, b')"
  shows "completes es \<le> 1 \<and>
     (\<forall>r. OnTxComplete r \<in> set es \<longrightarrow> tx_open_lora b \<and> \<not> tx_open_lora b') \<and>
     (tx_open_lora b' \<longrightarrow> tx_open_lora b) \<and>
     (lb_sink b \<and> tx_open_lora b \<and> \<not> tx_open_lora b' \<longrightarrow>
        (\<exists>r. OnTxComplete r \<in> set es) \<or> OnBackendFailure \<in> set es) \<and>
     (\<not> lb_sink b \<longrightarrow> es = [])"
proof -
  have e: "es = lb_out (poll_step now b)" "tx_open_lora b' = tx_open_lora (poll_step now b)"
    using assms(2) by (auto simp: poll_lora_def tx_open_lora_def Let_def)
  show ?thesis
    unfolding e using poll_tx_laws [OF assms(1)] poll_event_laws(2) [OF assms(1)] completes_ex by blast
qed

theorem poll_reports_each_tx_once_witness:
  "completes (fst (poll_lora 5 demo_lora)) \<le> 1 \<and> fst (poll_lora 5 demo_lora) = []"
  using poll_reports_each_tx_once [OF demo_lora_inv(1) prod.collapse [symmetric], of 5]
  by (simp add: demo_lora_def new_loraham_def)

text \<open>
  C31.  A running configuration.  A poll leaves it running and says nothing, or ends it: ready,
  reporting success with the requested configuration, or disconnected, reporting failure,
  under the token of the operation in both cases.  At its deadline it has ended.
\<close>

theorem configuration_ends_with_its_token:
  assumes "lora_inv b" and "lb_sink b" and "lb_state b = Connecting \<or> lb_state b = LConfiguring"
    and "poll_lora now b = (es, b')"
  shows "(lb_state b' = Connecting \<or> lb_state b' = LConfiguring) \<and> es = [] \<and> now < config_deadline_at b \<or>
     (\<exists>r. es = [OnConfigureComplete (lb_config_token b) r] \<and>
        (lb_state b' = LReady \<and> applied r \<and> effective r = pending_cfg b \<or>
         lb_state b' = Disconnected \<and> \<not> applied r))"
proof -
  have e: "es = lb_out (poll_step now b)" "lb_state b' = lb_state (poll_step now b)"
    using assms(4) by (auto simp: poll_lora_def Let_def)
  have "config_account b (poll_step now b)"
    using assms(1,3) by (rule_tac poll_step_cases [OF assms(1), of now]) (auto simp: tx_open_lora_def)
  moreover have "lb_state (poll_step now b) = Disconnected" if "config_deadline_at b \<le> now"
    using assms(3) that by (auto simp: poll_step_def config_fail_def Let_def)
  ultimately show ?thesis
    using assms(2) unfolding e config_account_def by (auto simp: not_le [symmetric])
qed

lemma demo_config_valid: "validate_config demo_config = (Ok, Some Band433)"
  by (simp add: validate_config_def demo_config_def select_band_def bandwidth_token_def kBwTable_def)

definition demo_connecting :: LorahamBackend where
  "demo_connecting = fold lora_step [SetSink True, Configure 0 demo_config] demo_lora"

lemma demo_connecting_facts:
  "lora_inv demo_connecting" "lb_sink demo_connecting" "lb_state demo_connecting = Connecting"
  "config_deadline_at demo_connecting = 2000" "lb_config_token demo_connecting = 1"
proof -
  show "lora_inv demo_connecting" unfolding demo_connecting_def by (rule lora_inv_run [OF demo_lora_inv(1)])
  obtain cmd where "build_set_command demo_config = Some cmd"
    by (simp add: build_set_command_eq demo_config_valid)
  then show "lb_sink demo_connecting" "lb_state demo_connecting = Connecting"
    "config_deadline_at demo_connecting = 2000" "lb_config_token demo_connecting = 1"
    by (simp_all add: demo_connecting_def demo_lora_def new_loraham_def set_sink_lora_def
        begin_configure_lora_def demo_config_valid begin_connect_def close_transport_def new_transport_def
        unix_begin_connect_def Let_def)
qed

theorem configuration_ends_with_its_token_witness:
  "\<exists>r. fst (poll_lora 2000 demo_connecting) = [OnConfigureComplete 1 r]"
  using configuration_ends_with_its_token [OF demo_connecting_facts(1,2) _ prod.collapse [symmetric], of 2000]
  by (auto simp: demo_connecting_facts)

lemma poll_quiet:
  assumes "lora_inv b" and "lb_state b = Draining \<or> lb_state b = Disconnected \<or> lb_state b = Faulted"
  shows "fst (poll_lora now b) = []" "lora_inv (snd (poll_lora now b))"
    "lb_state (snd (poll_lora now b)) = Draining \<or> lb_state (snd (poll_lora now b)) = Disconnected \<or>
     lb_state (snd (poll_lora now b)) = Faulted"
proof -
  have "drain_quiet (poll_step now b)"
    using assms by (rule_tac poll_step_cases [OF assms(1), of now]) auto
  then show "fst (poll_lora now b) = []"
    "lb_state (snd (poll_lora now b)) = Draining \<or> lb_state (snd (poll_lora now b)) = Disconnected \<or>
     lb_state (snd (poll_lora now b)) = Faulted"
    by (auto simp: drain_quiet_def poll_lora_def Let_def)
  show "lora_inv (snd (poll_lora now b))" by (rule lora_inv_poll [OF assms(1)])
qed

lemma polls_quiet:
  assumes "lora_inv b" and "lb_state b = Draining \<or> lb_state b = Disconnected \<or> lb_state b = Faulted"
    and "fold (\<lambda>t b. snd (poll_lora t b)) ts b = b1"
  shows "lora_inv b1 \<and> (lb_state b1 = Draining \<or> lb_state b1 = Disconnected \<or> lb_state b1 = Faulted)"
  using assms
proof (induction ts arbitrary: b)
  case (Cons t ts)
  then show ?case using poll_quiet [OF Cons.prems(1,2), of t] by simp
qed simp

subsection \<open>The configuration dialogue\<close>

text \<open>Lines that the wait for the daemon's verdict skips.\<close>

definition skipped :: "string \<Rightarrow> bool" where
  "skipped l \<longleftrightarrow> rstrip l = [] \<or> is_broadcast_line (rstrip l) \<or> rstrip l = ''OK''"

definition accepts_config :: "string \<Rightarrow> bool" where
  "accepts_config l \<longleftrightarrow> starts_with (rstrip l) ''STATUS'' \<and> status_line_radio_ready (rstrip l)"

definition as_lines :: "string list \<Rightarrow> string" where
  "as_lines ls = concat (map (\<lambda>l. l @ [CHR 0x0A]) ls)"

lemma takeWhile_line: "CHR 0x0A \<notin> set l \<Longrightarrow> takeWhile (\<lambda>c. c \<noteq> CHR 0x0A) (l @ CHR 0x0A # rest) = l"
  by (induction l) auto

lemma conf_lines_skip:
  "CHR 0x0A \<notin> set l \<Longrightarrow> skipped l \<Longrightarrow> conf_lines True (l @ CHR 0x0A # rest) = conf_lines True rest"
  by (subst conf_lines.simps) (auto simp: takeWhile_line skipped_def Let_def)

lemma conf_lines_verdict:
  assumes "CHR 0x0A \<notin> set l" and "\<not> skipped l"
  shows "fst (conf_lines True (l @ CHR 0x0A # rest)) =
     (if starts_with (rstrip l) ''STATUS'' then LinesStatus (status_line_radio_ready (rstrip l)) else LinesFatal)"
proof -
  have "\<not> (starts_with (rstrip l) ''STATUS'' \<and> starts_with (rstrip l) ''ERR'')"
    by (cases "rstrip l") (auto simp: starts_with_def)
  then show ?thesis
    using assms by (subst conf_lines.simps) (auto simp: takeWhile_line skipped_def Let_def)
qed

lemma conf_lines_dialogue:
  assumes "\<forall>k \<in> set (ls @ [l]). CHR 0x0A \<notin> set k" and "\<forall>k \<in> set ls. skipped k" and "\<not> skipped l"
  shows "fst (conf_lines True (as_lines (ls @ [l]))) =
     (if starts_with (rstrip l) ''STATUS'' then LinesStatus (status_line_radio_ready (rstrip l)) else LinesFatal)"
  using assms
proof (induction ls)
  case Nil
  then show ?case using conf_lines_verdict [of l "[]"] by (simp add: as_lines_def)
next
  case (Cons k ks)
  then show ?case using conf_lines_skip [of k "as_lines (ks @ [l])"] by (simp add: as_lines_def)
qed

text \<open>The commands go out in one write.\<close>

lemma conf_write_all:
  assumes "conf_fd (transport b) = Some k" and "tx_script k = SendOk n # sc"
    and "conf_out_off b < length (conf_out b)" and "length (conf_out b) - conf_out_off b \<le> n"
  shows "\<exists>k'. conf_write_loop b =
      (True, b\<lparr>transport := (transport b)\<lparr>conf_fd := Some k'\<rparr>, conf_out_off := length (conf_out b)\<rparr>) \<and>
     rx_script k' = rx_script k"
proof -
  let ?d = "bytes_of_string (drop (conf_out_off b) (conf_out b))"
  let ?k = "k\<lparr>tx_script := sc, tx_written := tx_written k @ take n ?d\<rparr>"
  let ?b = "b\<lparr>transport := (transport b)\<lparr>conf_fd := Some ?k\<rparr>, conf_out_off := length (conf_out b)\<rparr>"
  have "send_some (Some k) ?d = (Some (length (conf_out b) - conf_out_off b), Some ?k)"
    using assms by (simp add: send_some_def send_def min_def)
  then have "conf_write_loop b = conf_write_loop ?b"
    using assms by (subst conf_write_loop.simps) (simp add: conf_send_some_def)
  moreover have "conf_write_loop ?b = (True, ?b)" by (subst conf_write_loop.simps) simp
  ultimately show ?thesis by (intro exI [of _ ?k]) simp
qed

lemma pump_conf_dialogue:
  assumes "conf_fd (transport b) = Some k" and "conf_line b = []"
    and "rx_script k = RecvData (bytes_of_string (as_lines (ls @ [l]))) # rx"
    and "length (as_lines (ls @ [l])) < 512"
    and "\<forall>k \<in> set (ls @ [l]). CHR 0x0A \<notin> set k" and "\<forall>k \<in> set ls. skipped k" and "\<not> skipped l"
  shows "\<exists>t rest. pump_conf True b =
     (let b' = b\<lparr>transport := t, conf_line := rest\<rparr> in
      if starts_with (rstrip l) ''STATUS'' then (True, True, status_line_radio_ready (rstrip l), b')
      else (False, False, False, b'))"
proof -
  let ?s = "as_lines (ls @ [l])"
  let ?k = "k\<lparr>rx_script := rx, rx_taken := rx_taken k @ bytes_of_string ?s\<rparr>"
  let ?t = "(transport b)\<lparr>conf_fd := Some ?k\<rparr>"
  obtain res rest where lines: "conf_lines True ?s = (res, rest)" by fastforce
  then have res: "res = (if starts_with (rstrip l) ''STATUS'' then LinesStatus (status_line_radio_ready (rstrip l))
      else LinesFatal)"
    using conf_lines_dialogue [OF assms(5-7)] by (metis fst_conv)
  have ne: "bytes_of_string ?s \<noteq> []" by (simp add: as_lines_def bytes_of_string_def)
  have "recv_some (Some k) 512 = (Some (bytes_of_string ?s), Some ?k)"
    using assms(3,4) ne by (simp add: recv_some_def recv_def)
  then have "conf_recv 512 (transport b) = (Some (bytes_of_string ?s), ?t)"
    using assms(1) by (simp add: conf_recv_def)
  then have "pump_conf True b = (case res of
        LinesFatal \<Rightarrow> (False, False, False, b\<lparr>transport := ?t, conf_line := rest\<rparr>)
      | LinesStatus rdy \<Rightarrow> (True, True, rdy, b\<lparr>transport := ?t, conf_line := rest\<rparr>)
      | LinesDone \<Rightarrow> (True, False, False, b\<lparr>transport := ?t, conf_line := rest\<rparr>))"
    using assms(2,4) ne lines by (subst pump_conf.simps) (simp add: Let_def split: ConfLines.split)
  then show ?thesis
    by (intro exI [of _ ?t] exI [of _ rest]) (simp add: res Let_def)
qed

text \<open>
  C22.  The configuration dialogue ends as the daemon says.  Once the daemon takes the queued commands and
  answers, in one read, any number of acknowledgements, broadcasts and blank lines and then a
  line of another kind, that line decides within the same poll: the configuration is applied exactly
  if it is a STATUS line that reports the radio ready, and fails with the link closed otherwise.
\<close>

theorem configuration_dialogue_decides:
  assumes "lb_state b = LConfiguring" and "now < config_deadline_at b" and "lb_sink b" and "lb_out b = []"
    and "conf_line b = []" and "conf_fd (transport b) = Some k" and "tx_script k = SendOk n # sc"
    and "conf_out_off b < length (conf_out b)" and "length (conf_out b) - conf_out_off b \<le> n"
    and "rx_script k = RecvData (bytes_of_string (as_lines (ls @ [l]))) # rx"
    and "length (as_lines (ls @ [l])) < 512" and "\<forall>k \<in> set (ls @ [l]). CHR 0x0A \<notin> set k"
    and "\<forall>k \<in> set ls. skipped k" and "\<not> skipped l"
    and "poll_lora now b = (es, b')"
  shows "if accepts_config l
     then es = [OnConfigureComplete (lb_config_token b) \<lparr>applied = True, effective = pending_cfg b\<rparr>] \<and> lb_state b' = LReady
     else es = [OnConfigureComplete (lb_config_token b) \<lparr>applied = False, effective = zero_config\<rparr>] \<and>
       lb_state b' = Disconnected \<and> conf_fd (transport b') = None"
proof -
  obtain k' where w: "conf_write_loop b =
      (True, b\<lparr>transport := (transport b)\<lparr>conf_fd := Some k'\<rparr>, conf_out_off := length (conf_out b)\<rparr>)"
    and k': "rx_script k' = rx_script k"
    using conf_write_all [OF assms(6-9)] by blast
  let ?b = "b\<lparr>transport := (transport b)\<lparr>conf_fd := Some k'\<rparr>, conf_out_off := length (conf_out b),
      awaiting_status := True\<rparr>"
  obtain t rest where p: "pump_conf True ?b = (let b' = ?b\<lparr>transport := t, conf_line := rest\<rparr> in
      if starts_with (rstrip l) ''STATUS'' then (True, True, status_line_radio_ready (rstrip l), b')
      else (False, False, False, b'))"
    using pump_conf_dialogue [of ?b k' ls l rx] assms(5,10-14) k' by auto
  have "advance_configure b = (let b' = ?b\<lparr>transport := t, conf_line := rest\<rparr> in
      if accepts_config l then config_succeed b' else config_fail b')"
    using p by (auto simp: advance_configure_def w Let_def accepts_config_def)
  moreover have "poll_lora now b = (lb_out (advance_configure b), (advance_configure b)\<lparr>lb_out := []\<rparr>)"
    using assms(1) linorder_not_le [THEN iffD2, OF assms(2)] by (simp add: poll_lora_def poll_step_def Let_def)
  ultimately have r: "es = lb_out (advance_configure b)" "b' = (advance_configure b)\<lparr>lb_out := []\<rparr>"
    "advance_configure b = (if accepts_config l then config_succeed (?b\<lparr>transport := t, conf_line := rest\<rparr>)
       else config_fail (?b\<lparr>transport := t, conf_line := rest\<rparr>))"
    using assms(15) by (simp_all add: Let_def)
  show ?thesis
    using assms(3,4) unfolding r(1,2) r(3)
    by (simp add: config_succeed_def config_fail_def call_sink_def reset_link_unconfigured_def
        close_transport_def)
qed

definition demo_dialogue :: LorahamBackend where
  "demo_dialogue = demo_lora\<lparr>lb_sink := True, lb_state := LConfiguring, config_deadline_at := 2000,
     lb_config_token := 1, pending_cfg := demo_config, conf_out := ''GET STATUS'' @ [CHR 0x0A],
     transport := (transport demo_lora)\<lparr>conf_fd := Some (demo_link\<lparr>tx_script := [SendOk 100],
       rx_script := [RecvData (bytes_of_string (as_lines [''OK'', ''TX=0'', ''STATUS RADIO=READY'']))]\<rparr>)\<rparr>\<rparr>"

theorem configuration_dialogue_decides_witness:
  "fst (poll_lora 5 demo_dialogue) = [OnConfigureComplete 1 \<lparr>applied = True, effective = demo_config\<rparr>]"
proof -
  have k: "\<forall>k \<in> set [''OK'', ''TX=0'']. skipped k" "\<not> skipped ''STATUS RADIO=READY''" "accepts_config ''STATUS RADIO=READY''"
    by (simp_all add: skipped_def accepts_config_def rstrip_def is_broadcast_line_def starts_with_def
        status_line_radio_ready_def)
  show ?thesis
    using configuration_dialogue_decides [where b = demo_dialogue and now = 5 and ls = "[''OK'', ''TX=0'']"
        and l = "''STATUS RADIO=READY''", OF _ _ _ _ _ _ _ _ _ _ _ _ k(1,2) prod.collapse [symmetric]] k(3)
    by (simp add: demo_dialogue_def demo_lora_def new_loraham_def new_transport_def as_lines_def)
qed


definition demo_owned :: LorahamBackend where
  "demo_owned = demo_lora\<lparr>lb_state := Draining, drain_deadline_at := 100,
     transport := (transport demo_lora)\<lparr>data_fd := Some (demo_link\<lparr>tx_written := lora_tx_bytes [1]\<rparr>)\<rparr>,
     tx_out := lora_tx_bytes [1], tx_out_off := 4\<rparr>"

lemma demo_owned_inv: "lora_inv demo_owned"
  using demo_lora_inv(1)
  by (auto simp: demo_owned_def lora_inv_def lora_core_def tx_open_lora_def demo_lora_def new_loraham_def
      new_transport_def rf_payload_def tx_stream_def intro!: exI [of _ "[]"] exI [of _ "[1]"])




definition rx_frame :: "i16 \<times> i16 \<times> byte list \<Rightarrow> LFrame" where
  "rx_frame = (\<lambda>(rssi, snr, rf). \<lparr>lf_type = FRAMED_RX_PACKET, lf_len = of_nat (4 + length rf),
     lf_payload = put16le rssi @ put16le snr @ rf\<rparr>)"

definition rx_frame_bytes :: "LFrame \<Rightarrow> byte list" where
  "rx_frame_bytes f = [lf_type f] @ put16le (lf_len f) @ lf_payload f"

definition rx_event :: "i16 \<times> i16 \<times> byte list \<Rightarrow> SinkEvent" where
  "rx_event = (\<lambda>(rssi, snr, rf). OnRx \<lparr>rssi_cdbm = rssi, snr_cdb = snr, rx_event_len = of_nat (length rf),
     rx_event_data = rf\<rparr>)"

lemma rx_frame_len:
  assumes "length rf \<le> 255"
  shows "unat (4 + of_nat (length rf) :: u16) = 4 + length rf"
proof -
  have "unat (of_nat (length rf) :: u16) = length rf" using assms by (simp add: unat_of_nat)
  then show ?thesis using assms by (simp add: unat_word_ariths)
qed

lemma rx_frame_deframe:
  assumes "length (snd (snd p)) \<le> 255"
  shows "lora_deframe (rx_frame_bytes (rx_frame p) @ rest) = Got (rx_frame p) (length (rx_frame_bytes (rx_frame p)))"
proof -
  obtain rssi snr rf where p: "p = (rssi, snr, rf)" by (cases p)
  let ?n = "4 + of_nat (length rf) :: u16"
  have n: "unat ?n = 4 + length rf" using assms by (intro rx_frame_len) (simp add: p)
  have "rx_frame_bytes (rx_frame p) = FRAMED_RX_PACKET # put16le ?n @ put16le rssi @ put16le snr @ rf"
    by (simp add: p rx_frame_def rx_frame_bytes_def)
  moreover have "take (4 + length rf) (put16le rssi @ put16le snr @ rf @ rest) = put16le rssi @ put16le snr @ rf"
    by simp
  ultimately show ?thesis
    using n assms by (simp add: p rx_frame_def lora_deframe_def get16le_def put16le_def Let_def)
qed

lemma rx_frame_decode:
  assumes "length rf \<le> 255"
  shows "decode_rx (rx_frame (rssi, snr, rf)) = Some (rssi, snr, rf, of_nat (length rf))"
proof -
  have "unat (of_nat (length rf) :: u16) = length rf" using assms by (simp add: unat_of_nat)
  then show ?thesis
    using rx_frame_len [OF assms] assms
    by (simp add: rx_frame_def decode_rx_def get16le_def put16le_def word_le_nat_alt Let_def not_less)
qed

lemma encode_rx_packet_frame:
  assumes "encode_rx_packet (Some cap) rssi snr (Some rf) (of_nat (length rf)) = Some bs" and "length rf \<le> 255"
  shows "bs = rx_frame_bytes (rx_frame (rssi, snr, rf))"
proof -
  have "unat (of_nat (length rf) :: u16) = length rf" using assms(2) by (simp add: unat_of_nat)
  then have "(of_nat (length rf) :: u16) = 0 \<longleftrightarrow> rf = []" by (metis length_0_conv unat_eq_zero)
  then show ?thesis
    using assms by (auto simp: encode_rx_packet_def rx_frame_def rx_frame_bytes_def Let_def split: if_splits)
qed

lemma encode_rx_packets:
  assumes "map (\<lambda>(rssi, snr, rf). encode_rx_packet (Some cap) rssi snr (Some rf) (of_nat (length rf))) ps = map Some bss"
    and "\<forall>p \<in> set ps. length (snd (snd p)) \<le> 255"
  shows "bss = map rx_frame_bytes (map rx_frame ps)"
  using assms
proof (induction ps arbitrary: bss)
  case (Cons p ps)
  obtain rssi snr rf where p: "p = (rssi, snr, rf)" by (cases p)
  from Cons.prems(1) obtain bs rest where "bss = bs # rest"
    and "encode_rx_packet (Some cap) rssi snr (Some rf) (of_nat (length rf)) = Some bs"
    and "map (\<lambda>(rssi, snr, rf). encode_rx_packet (Some cap) rssi snr (Some rf) (of_nat (length rf))) ps = map Some rest"
    by (cases bss) (auto simp: p)
  then show ?case
    using Cons.IH [of rest] Cons.prems(2) encode_rx_packet_frame [of cap rssi snr rf bs] by (simp add: p)
qed simp

lemma dispatch_rx_frame:
  assumes "length (snd (snd p)) \<le> 255" and "lb_sink b"
    and "lb_state b = LReady \<or> lb_state b = TxWriting \<or> lb_state b = TxPending"
  shows "dispatch (rx_frame p) b = b\<lparr>lb_rflog := lb_rflog b @ [case p of (rssi, snr, rf) \<Rightarrow> RfRx rssi snr rf],
     lb_out := lb_out b @ [rx_event p]\<rparr>"
proof -
  obtain rssi snr rf where p: "p = (rssi, snr, rf)" by (cases p)
  have "lf_type (rx_frame p) = FRAMED_RX_PACKET" by (simp add: p rx_frame_def)
  then show ?thesis
    using assms rx_frame_decode [of rf rssi snr]
    by (auto simp: p dispatch_def rx_event_def call_sink_def Let_def)
qed

lemma run_rx_frames:
  assumes "\<forall>p \<in> set ps. length (snd (snd p)) \<le> 255" and "lb_sink b"
    and "lb_state b = LReady \<or> lb_state b = TxWriting \<or> lb_state b = TxPending"
  shows "run_frames dispatch (link_halted False) (map rx_frame ps) b =
     b\<lparr>lb_rflog := lb_rflog b @ map (\<lambda>(rssi, snr, rf). RfRx rssi snr rf) ps,
       lb_out := lb_out b @ map rx_event ps\<rparr>"
  using assms
proof (induction ps arbitrary: b)
  case (Cons p ps)
  let ?b = "dispatch (rx_frame p) b"
  have b: "?b = b\<lparr>lb_rflog := lb_rflog b @ [case p of (rssi, snr, rf) \<Rightarrow> RfRx rssi snr rf],
     lb_out := lb_out b @ [rx_event p]\<rparr>"
    using Cons.prems by (intro dispatch_rx_frame) auto
  have "\<not> link_halted False ?b" using Cons.prems(3) by (auto simp: b link_halted_def)
  with Cons.IH [of ?b] Cons.prems show ?case by (simp add: b)
qed simp

text \<open>
  C34.  Received packets.  While the link is operational, any number of RX frames arriving in
  one read, however long, reach the client as one event each, in order, with their signal
  values and bytes, and each is logged; the state of the link does not change.
\<close>

theorem rx_in_order:
  assumes "\<forall>p \<in> set ps. length (snd (snd p)) \<le> 255" and "lb_sink b"
    and "lb_state b = LReady \<or> lb_state b = TxWriting \<or> lb_state b = TxPending"
    and "lparser_invar (lb_parser b)" and "lparser_held (lb_parser b) = []"
    and "map (\<lambda>(rssi, snr, rf). encode_rx_packet (Some 262) rssi snr (Some rf) (of_nat (length rf))) ps = map Some bss"
    and "rx_loop False (concat bss) b = b'"
  shows "lb_out b' = lb_out b @ map rx_event ps \<and>
     lb_rflog b' = lb_rflog b @ map (\<lambda>(rssi, snr, rf). RfRx rssi snr rf) ps \<and>
     lb_state b' = lb_state b \<and> transport b' = transport b"
proof -
  have "bss = map rx_frame_bytes (map rx_frame ps)"
    using assms(1,6) by (rule encode_rx_packets [rotated])
  then have "lrs.same (rx_loop False (concat bss) b)
      (run_frames dispatch (link_halted False) (map rx_frame ps) b)"
    using lrs.loop_frames [of b "map rx_frame ps" rx_frame_bytes False] assms(1,4,5) rx_frame_deframe
    by (simp add: lora_deframe_def image_iff) blast
  then have "b'\<lparr>lb_parser := lb_parser b\<rparr> = (b\<lparr>lb_rflog := lb_rflog b @ map (\<lambda>(rssi, snr, rf). RfRx rssi snr rf) ps,
       lb_out := lb_out b @ map rx_event ps\<rparr>)\<lparr>lb_parser := lb_parser b\<rparr>"
    using assms(7) run_rx_frames [OF assms(1-3)] by (simp add: lrs.same_def comp_def)
  then show ?thesis by (cases b'; cases b) simp
qed

definition demo_operational :: LorahamBackend where
  "demo_operational = demo_lora\<lparr>lb_state := LReady, lb_sink := True\<rparr>"

theorem rx_in_order_witness:
  "lb_out (rx_loop False [1, 5, 0, 0, 0, 0, 0, 0x41, 1, 4, 0, 0, 0, 0, 0] demo_operational) =
     [rx_event (0, 0, [0x41]), rx_event (0, 0, [])]"
  using rx_in_order [of "[(0, 0, [0x41]), (0, 0, [])]" demo_operational
      "[[1, 5, 0, 0, 0, 0, 0, 0x41], [1, 4, 0, 0, 0, 0, 0]]", OF _ _ _ _ _ _ refl]
  by (simp add: demo_operational_def demo_lora_def new_loraham_def lparser_held_def lparser_init_def
      lparser_invar_def encode_rx_packet_def put16le_def byte16_def)

text \<open>
  C35.  Tokens.  The operation that starts connecting has the successor of the last token as
  its own; the counter wraps, so after the token \<open>2 ^ 32 - 1\<close> an operation runs whose token is 0,
  the value that reports a refusal.
\<close>

theorem config_token_wraps:
  assumes "begin_configure_lora now c b = (t, b')" and "lb_state b \<noteq> Connecting"
    and "lb_state b' = Connecting"
  shows "t = lb_next_token b + 1 \<and> lb_next_token b' = t \<and> lb_config_token b' = t \<and>
     (t = 0 \<longleftrightarrow> lb_next_token b = 0xFFFFFFFF)"
proof -
  have t: "t = lb_next_token b + 1 \<and> lb_next_token b' = t \<and> lb_config_token b' = t"
    using begin_configure_lora_frame [of now c b] assms by auto
  have "lb_next_token b + 1 = 0 \<longleftrightarrow> lb_next_token b = - 1" by (simp add: eq_neg_iff_add_eq_0)
  moreover have "(- 1 :: u32) = 0xFFFFFFFF" by (simp add: word_eq_iff_unsigned)
  ultimately show ?thesis using t by metis
qed

theorem config_token_wraps_witness:
  "fst (begin_configure_lora 0 demo_config (demo_lora\<lparr>lb_next_token := 0xFFFFFFFF\<rparr>)) = 0 \<and>
   lb_state (snd (begin_configure_lora 0 demo_config (demo_lora\<lparr>lb_next_token := 0xFFFFFFFF\<rparr>))) = Connecting"
proof -
  let ?b = "demo_lora\<lparr>lb_next_token := 0xFFFFFFFF\<rparr>"
  obtain cmd where "build_set_command demo_config = Some cmd"
    by (simp add: build_set_command_eq demo_config_valid)
  then have c: "lb_state (snd (begin_configure_lora 0 demo_config ?b)) = Connecting"
    by (simp add: demo_lora_def new_loraham_def begin_configure_lora_def demo_config_valid begin_connect_def
        close_transport_def new_transport_def unix_begin_connect_def Let_def)
  have "lb_state ?b \<noteq> Connecting" using demo_lora_inv(2) by simp
  with c show ?thesis
    using config_token_wraps [OF prod.collapse [symmetric], of ?b 0 demo_config] by simp
qed

end
