(* ===== verification/Rf_Log.thy ===== *)
theory Rf_Log
  imports Posix_Socket "HOL-Library.Sublist"
begin

text \<open>
  The RF log, \<^verbatim>\<open>src/src/util/rflog.{h,cpp}\<close>: formatting of a record into a bounded character
  buffer, and the append with rollover into the previous segment.  A buffer is the list of
  its \<open>cap\<close> characters.  Files are their contents; what the system calls of one record answer
  is a record of scripts, a used-up script answering with success.  The time stamp, which
  \<^verbatim>\<open>utc_now\<close> reads from the system clock, is an argument.
\<close>

subsection \<open>Bounded formatting\<close>

definition kLineMax :: nat where [simp]: "kLineMax = 1024"

text \<open>\<^verbatim>\<open>snprintf(out + pos, size, "%s", text)\<close> with what is left of the buffer.\<close>

definition put :: "string \<Rightarrow> nat \<Rightarrow> nat \<Rightarrow> string \<Rightarrow> string \<times> nat" where
  "put out cap pos text =
     (let size = (if pos < cap then cap - pos else 0);
          n = min (length text) (size - 1);
          out = (if size = 0 then out else memcpy out pos (take n text @ [CHR 0x00]) (n + 1))
      in (out, pos + length text))"

definition digits :: string where
  "digits = ''0123456789abcdef''"

fun hex_loop :: "nat \<Rightarrow> byte list \<Rightarrow> string \<times> nat \<Rightarrow> string \<times> nat" where
  "hex_loop cap [] (out, pos) = (out, pos)"
| "hex_loop cap (b # bs) (out, pos) =
     (if pos + 2 < cap
      then hex_loop cap bs (out[pos := digits ! unat (drop_bit 4 b),
             pos + 1 := digits ! unat (b AND 0x0F)], pos + 2)
      else (out, pos))"

definition ascii_char :: "byte \<Rightarrow> char" where
  "ascii_char c =
     (if c \<ge> 0x20 \<and> c < 0x7F \<and> c \<noteq> 0x22 \<and> c \<noteq> 0x5C then char_of (unat c) else CHR ''.'')"

fun ascii_loop :: "nat \<Rightarrow> byte list \<Rightarrow> string \<times> nat \<Rightarrow> string \<times> nat" where
  "ascii_loop cap [] (out, pos) = (out, pos)"
| "ascii_loop cap (b # bs) (out, pos) =
     (if pos + 1 < cap then ascii_loop cap bs (out[pos := ascii_char b], pos + 1)
      else (out, pos))"

definition append_payload :: "string \<Rightarrow> nat \<Rightarrow> nat \<Rightarrow> byte list \<Rightarrow> string \<times> nat" where
  "append_payload out cap pos rf =
     (let (out, pos) = put out cap pos '' hex='';
          (out, pos) = hex_loop cap rf (out, pos);
          (out, pos) = put out cap pos ('' ascii='' @ [CHR 0x22]);
          (out, pos) = ascii_loop cap rf (out, pos);
          (out, pos) = put out cap pos [CHR 0x22, CHR 0x0A]
      in if pos \<ge> cap then (out[cap - 2 := CHR 0x0A, cap - 1 := CHR 0x00], cap - 1)
         else (out[pos := CHR 0x00], pos))"

text \<open>
  \<^verbatim>\<open>%.2f\<close> of a 16-bit integer over \<^verbatim>\<open>100.0\<close>: the quotient has two decimals, which are those
  of the integer.
\<close>

definition show_centi :: "int \<Rightarrow> string" where
  "show_centi i = (if i < 0 then ''-'' else '''') @ show_nat (nat \<bar>i\<bar> div 100) @ ''.'' @
     [char_of (48 + nat \<bar>i\<bar> div 10 mod 10), char_of (48 + nat \<bar>i\<bar> mod 10)]"

definition rx_head :: "string option \<Rightarrow> i16 \<Rightarrow> i16 \<Rightarrow> nat \<Rightarrow> string" where
  "rx_head utc rssi snr len =
     (case utc of None \<Rightarrow> ''-'' | Some u \<Rightarrow> u) @ '' RX rssi='' @ show_centi (sint rssi) @
     '' snr='' @ show_centi (sint snr) @ '' len='' @ show_nat len"

definition tx_head :: "string option \<Rightarrow> string option \<Rightarrow> nat \<Rightarrow> string" where
  "tx_head utc outcome len =
     (case utc of None \<Rightarrow> ''-'' | Some u \<Rightarrow> u) @ '' TX rssi=- snr=- len='' @ show_nat len @
     '' outcome='' @ (case outcome of None \<Rightarrow> ''-'' | Some t \<Rightarrow> t)"

text \<open>Both formatters print the head into the buffer, clip the position and append the payload;
  \<open>None\<close> for the return value 0.\<close>

definition format_line :: "string option \<Rightarrow> nat \<Rightarrow> string \<Rightarrow> byte list \<Rightarrow> (string \<times> nat) option" where
  "format_line out cap text rf =
     (if out = None \<or> cap < 8 then None
      else
        let (buf, n) = put (the out) cap 0 text;
            pos = (if n < cap then n else cap - 1)
        in Some (append_payload buf cap pos rf))"

definition format_rx ::
  "string option \<Rightarrow> nat \<Rightarrow> string option \<Rightarrow> i16 \<Rightarrow> i16 \<Rightarrow> byte list \<Rightarrow> (string \<times> nat) option" where
  "format_rx out cap utc rssi snr rf = format_line out cap (rx_head utc rssi snr (length rf)) rf"

definition format_tx ::
  "string option \<Rightarrow> nat \<Rightarrow> string option \<Rightarrow> string option \<Rightarrow> byte list \<Rightarrow> (string \<times> nat) option" where
  "format_tx out cap utc outcome rf = format_line out cap (tx_head utc outcome (length rf)) rf"


subsection \<open>The text a record should have\<close>

definition hex_text :: "byte list \<Rightarrow> string" where
  "hex_text rf = concat (map (\<lambda>b. [digits ! unat (drop_bit 4 b), digits ! unat (b AND 0x0F)]) rf)"

definition record_text :: "string \<Rightarrow> byte list \<Rightarrow> string" where
  "record_text head rf = head @ '' hex='' @ hex_text rf @ '' ascii='' @ [CHR 0x22] @
     map ascii_char rf @ [CHR 0x22, CHR 0x0A]"

text \<open>
  The buffer after writing the text \<open>T\<close>: it holds \<open>T\<close> as far as it fits, or the position is
  past the last two characters and all before them are those of \<open>T\<close>.
\<close>

definition holds_text :: "nat \<Rightarrow> string \<times> nat \<Rightarrow> string \<Rightarrow> bool" where
  "holds_text cap st T \<longleftrightarrow> length (fst st) = cap \<and> snd st = length T \<and>
     take (min (snd st) (cap - 1)) (fst st) = take (cap - 1) T"

definition written_to :: "nat \<Rightarrow> string \<times> nat \<Rightarrow> string \<Rightarrow> bool" where
  "written_to cap st T \<longleftrightarrow> holds_text cap st T \<or>
     length (fst st) = cap \<and> cap - 2 \<le> snd st \<and> cap - 2 \<le> length T \<and>
     take (cap - 2) (fst st) = take (cap - 2) T"

lemma written_to_length: "written_to cap st T \<Longrightarrow> length (fst st) = cap"
  by (auto simp: written_to_def holds_text_def)

text \<open>Once the position is that far, the text before the last two characters is settled.\<close>

lemma written_to_settled:
  assumes "written_to cap (out, pos) T" and "cap - 2 \<le> pos"
  shows "cap - 2 \<le> length T \<and> take (cap - 2) out = take (cap - 2) T"
proof (cases "holds_text cap (out, pos) T")
  case True
  then have h: "pos = length T" "take (min pos (cap - 1)) out = take (cap - 1) T"
    by (auto simp: holds_text_def)
  from h(2) have "take (cap - 2) (take (min pos (cap - 1)) out) = take (cap - 2) (take (cap - 1) T)"
    by (rule arg_cong)
  moreover have "min (cap - 2) (min pos (cap - 1)) = cap - 2" "min (cap - 2) (cap - 1) = cap - 2"
    using assms(2) by simp_all
  ultimately show ?thesis using h(1) assms(2) by (simp only: take_take)
qed (use assms in \<open>auto simp: written_to_def\<close>)

lemma put_fst:
  assumes "length out = cap"
  shows "length (fst (put out cap pos text)) = cap"
    and "m \<le> pos \<Longrightarrow> take m (fst (put out cap pos text)) = take m out"
  using assms by (auto simp: put_def memcpy_def Let_def)

lemma holds_text_put:
  assumes "holds_text cap (out, pos) T"
  shows "holds_text cap (put out cap pos text) (T @ text)"
proof -
  have len: "length out = cap" and pos: "pos = length T"
    and T: "take (min pos (cap - 1)) out = take (cap - 1) T"
    using assms by (auto simp: holds_text_def)
  have "take (min (pos + length text) (cap - 1)) (fst (put out cap pos text)) = take (cap - 1) (T @ text)"
  proof (cases "pos < cap")
    case True
    then have t: "take pos out = T" using T pos by (simp add: min_absorb1)
    define n where "n = min (length text) (cap - pos - 1)"
    have "fst (put out cap pos text) = T @ take n text @ CHR 0x00 # drop (pos + n + 1) out"
      using True t by (simp add: put_def memcpy_def n_def Let_def)
    moreover have "min (pos + length text) (cap - 1) = length T + n" using True pos by (auto simp: n_def)
    moreover have "take (cap - 1) (T @ text) = T @ take n text"
      using True pos by (auto simp: n_def min_def)
    ultimately show ?thesis using True by (simp add: n_def min_def)
  next
    case False
    then have m: "min pos (cap - 1) = cap - 1" "min (pos + length text) (cap - 1) = cap - 1"
      "cap - 1 \<le> pos" by simp_all
    have "take (cap - 1) out = take (cap - 1) T" "cap - 1 \<le> length T"
      using T pos m by (simp_all only:)
    with m put_fst(2) [OF len, of "cap - 1" pos "text"] show ?thesis by simp
  qed
  with pos put_fst(1) [OF len] show ?thesis by (simp add: holds_text_def put_def Let_def)
qed

lemma written_to_put:
  assumes "written_to cap (out, pos) T"
  shows "written_to cap (put out cap pos text) (T @ text)"
proof (cases "holds_text cap (out, pos) T")
  case False
  with assms have "length out = cap" "cap - 2 \<le> pos" "cap - 2 \<le> length T"
    "take (cap - 2) out = take (cap - 2) T"
    by (simp_all add: written_to_def)
  moreover from this put_fst [of out cap] have "length (fst (put out cap pos text)) = cap"
    "take (cap - 2) (fst (put out cap pos text)) = take (cap - 2) T"
    "snd (put out cap pos text) = pos + length text"
    by (simp_all add: put_def Let_def)
  ultimately show ?thesis by (simp add: written_to_def)
qed (simp add: written_to_def holds_text_put)

lemma take_update2:
  "length out = cap \<Longrightarrow> p + 2 < cap \<Longrightarrow> take p out = T \<Longrightarrow> take (p + 2) (out[p := a, p + 1 := b]) = T @ [a, b]"
  by (auto simp: take_Suc_conv_app_nth numeral_2_eq_2 nth_append)

lemma written_to_hex:
  "written_to cap st T \<Longrightarrow> 2 \<le> cap \<Longrightarrow> written_to cap (hex_loop cap rf st) (T @ hex_text rf)"
proof (induction cap rf st arbitrary: T rule: hex_loop.induct)
  case (1 cap out pos)
  then show ?case by (simp add: hex_text_def)
next
  case (2 cap b bs out pos)
  let ?x = "digits ! unat (drop_bit 4 b)" and ?y = "digits ! unat (b AND 0x0F)"
  have len: "length out = cap" using written_to_length [OF "2.prems"(1)] by simp
  show ?case
  proof (cases "pos + 2 < cap")
    case True
    with "2.prems" have T: "pos = length T" "take pos out = T"
      by (auto simp: written_to_def holds_text_def)
    have "written_to cap (out[pos := ?x, pos + 1 := ?y], pos + 2) (T @ [?x, ?y])"
      using True T len take_update2 [OF len True T(2), of ?x ?y]
      by (simp add: written_to_def holds_text_def)
    from "2.IH" [OF True this] "2.prems" True show ?thesis by (simp add: hex_text_def)
  next
    case False
    then have "cap - 2 \<le> pos" by simp
    with written_to_settled [OF "2.prems"(1) this] len False show ?thesis
      by (auto simp: written_to_def)
  qed
qed

lemma written_to_ascii:
  "written_to cap st T \<Longrightarrow> 2 \<le> cap \<Longrightarrow> written_to cap (ascii_loop cap rf st) (T @ map ascii_char rf)"
proof (induction cap rf st arbitrary: T rule: ascii_loop.induct)
  case (1 cap out pos)
  then show ?case by simp
next
  case (2 cap b bs out pos)
  have len: "length out = cap" using written_to_length [OF "2.prems"(1)] by simp
  show ?case
  proof (cases "pos + 1 < cap")
    case True
    have "written_to cap (out[pos := ascii_char b], pos + 1) (T @ [ascii_char b])"
      using True "2.prems" len
      by (auto simp: written_to_def holds_text_def take_Suc_conv_app_nth min_def take_update_cancel split: if_splits)
    from "2.IH" [OF True this] "2.prems" True show ?thesis by simp
  next
    case False
    then have "cap - 2 \<le> pos" by simp
    with written_to_settled [OF "2.prems"(1) this] len False show ?thesis
      by (auto simp: written_to_def)
  qed
qed


subsection \<open>The record in the buffer\<close>

text \<open>A C string ends at its first null character.\<close>

definition c_str :: "string \<Rightarrow> string" where
  "c_str buf = takeWhile (\<lambda>c. c \<noteq> CHR 0x00) buf"

text \<open>The record cut to the buffer: still one line.\<close>

definition clip_line :: "nat \<Rightarrow> string \<Rightarrow> string" where
  "clip_line cap t = (if length t < cap then t else take (cap - 2) t @ [CHR 0x0A])"

lemma c_str_prefix:
  assumes "take n buf = t" and "n < length buf" and "buf ! n = CHR 0x00" and "CHR 0x00 \<notin> set t"
  shows "c_str buf = t"
proof -
  have "buf = t @ CHR 0x00 # drop (Suc n) buf"
    using assms(1-3) by (metis id_take_nth_drop)
  then have "c_str buf = takeWhile (\<lambda>c. c \<noteq> CHR 0x00) (t @ CHR 0x00 # drop (Suc n) buf)"
    unfolding c_str_def by (rule arg_cong)
  also have "\<dots> = t"
    using assms(4) by (subst takeWhile_append2) auto
  finally show ?thesis .
qed

text \<open>The last step: the buffer is closed after the text, or after the line cut short.\<close>

lemma close_record:
  assumes w: "written_to cap (out, pos) T" and cap: "8 \<le> cap"
    and nul: "CHR 0x00 \<notin> set T" and early: "pos < cap \<Longrightarrow> holds_text cap (out, pos) T"
    and late: "cap \<le> pos \<Longrightarrow> cap \<le> length T"
    and r: "(if pos \<ge> cap then (out[cap - 2 := CHR 0x0A, cap - 1 := CHR 0x00], cap - 1)
      else (out[pos := CHR 0x00], pos)) = (buf, n)"
  shows "length buf = cap \<and> c_str buf = clip_line cap T \<and> n = length (clip_line cap T)"
proof (cases "pos < cap")
  case True
  then have "length out = cap" "pos = length T" "take pos out = T"
    using early by (auto simp: holds_text_def min_def split: if_splits)
  with True r nul show ?thesis
    by (auto simp: clip_line_def intro!: c_str_prefix [of pos])
next
  case False
  then have buf: "buf = out[cap - 2 := CHR 0x0A, cap - 1 := CHR 0x00]" "n = cap - 1"
    and len: "length out = cap" using r written_to_length [OF w] by auto
  have t: "take (cap - 2) out = take (cap - 2) T"
    using written_to_settled [OF w] False by simp
  have "cap - 1 = Suc (cap - 2)" using cap by simp
  then have "take (cap - 1) buf = take (cap - 2) T @ [CHR 0x0A]"
    using cap len t by (simp add: buf take_Suc_conv_app_nth)
  moreover have "CHR 0x00 \<notin> set (take (cap - 2) T @ [CHR 0x0A])" using nul by (auto dest: in_set_takeD)
  ultimately have "c_str buf = take (cap - 2) T @ [CHR 0x0A]"
    using cap len by (intro c_str_prefix [of "cap - 1"]) (simp_all add: buf)
  with late False len cap buf show ?thesis by (auto simp: clip_line_def)
qed

lemma append_payload_text:
  assumes w: "written_to cap (out, pos) head" and cap: "8 \<le> cap"
    and nul: "CHR 0x00 \<notin> set (record_text head rf)"
    and r: "append_payload out cap pos rf = (buf, n)"
  shows "length buf = cap \<and> c_str buf = clip_line cap (record_text head rf) \<and>
     n = length (clip_line cap (record_text head rf))"
proof -
  obtain o1 p1 where s1: "put out cap pos '' hex='' = (o1, p1)" by fastforce
  obtain o2 p2 where s2: "hex_loop cap rf (o1, p1) = (o2, p2)" by fastforce
  obtain o3 p3 where s3: "put o2 cap p2 ('' ascii='' @ [CHR 0x22]) = (o3, p3)" by fastforce
  obtain o4 p4 where s4: "ascii_loop cap rf (o3, p3) = (o4, p4)" by fastforce
  obtain o5 p5 where s5: "put o4 cap p4 [CHR 0x22, CHR 0x0A] = (o5, p5)" by fastforce
  have two: "2 \<le> cap" using cap by simp
  note w1 = written_to_put [OF w, of "'' hex=''", unfolded s1]
  note w2 = written_to_hex [OF w1 two, of rf, unfolded s2]
  note w3 = written_to_put [OF w2, of "'' ascii='' @ [CHR 0x22]", unfolded s3]
  note w4 = written_to_ascii [OF w3 two, of rf, unfolded s4]
  let ?T0 = "(((head @ '' hex='') @ hex_text rf) @ '' ascii='' @ [CHR 0x22]) @ map ascii_char rf"
  have T: "record_text head rf = ?T0 @ [CHR 0x22, CHR 0x0A]" by (simp add: record_text_def)
  have w5: "written_to cap (o5, p5) (record_text head rf)"
    unfolding T by (rule written_to_put [OF w4, of "[CHR 0x22, CHR 0x0A]", unfolded s5])
  have p5: "p5 = p4 + 2" using s5 by (auto simp: put_def Let_def)
  have early: "holds_text cap (o5, p5) (record_text head rf)" if "p5 < cap"
  proof -
    have "holds_text cap (o4, p4) ?T0"
      using w4 that p5 unfolding written_to_def snd_conv by linarith
    from holds_text_put [OF this, of "[CHR 0x22, CHR 0x0A]"] show ?thesis unfolding T s5 .
  qed
  have late: "cap \<le> p5 \<Longrightarrow> cap \<le> length (record_text head rf)"
    using w4 p5 unfolding T written_to_def holds_text_def snd_conv by auto
  have eq: "(if p5 \<ge> cap then (o5[cap - 2 := CHR 0x0A, cap - 1 := CHR 0x00], cap - 1)
      else (o5[p5 := CHR 0x00], p5)) = (buf, n)"
    using r by (simp add: append_payload_def s1 s2 s3 [simplified] s4 s5)
  show ?thesis by (rule close_record [OF w5 cap nul early late eq])
qed

lemma format_line_text:
  assumes "length out = cap" and "8 \<le> cap" and "CHR 0x00 \<notin> set (record_text head rf)"
    and r: "format_line (Some out) cap head rf = Some (buf, n)"
  shows "length buf = cap \<and> c_str buf = clip_line cap (record_text head rf) \<and>
     n = length (clip_line cap (record_text head rf))"
proof -
  obtain o1 n1 where p: "put out cap 0 head = (o1, n1)" by fastforce
  have n1: "n1 = length head" using p by (auto simp: put_def Let_def)
  have w: "written_to cap (o1, n1) head"
    using written_to_put [of cap out 0 "[]" head] assms(1) p
    by (simp add: written_to_def holds_text_def)
  then have "written_to cap (o1, if n1 < cap then n1 else cap - 1) head"
    using written_to_settled [OF w] written_to_length [OF w] n1 by (auto simp: written_to_def)
  moreover have "append_payload o1 cap (if n1 < cap then n1 else cap - 1) rf = (buf, n)"
    using r p assms(2) by (simp add: format_line_def Let_def)
  ultimately show ?thesis by (rule append_payload_text [OF _ assms(2,3)])
qed


subsection \<open>The characters of a record\<close>

lemma nibbles: "unat (drop_bit 4 b) < 16" "unat (b AND 0x0F) < 16" for b :: byte
proof -
  have "unat (drop_bit 4 b) = unat b div 16" by (simp add: drop_bit_eq_div unat_div)
  then show "unat (drop_bit 4 b) < 16"
    using unat_byte_less [of b] by (simp add: less_mult_imp_div_less)
  have "b AND 0x0F \<le> 0x0F" by (rule word_and_le1)
  then show "unat (b AND 0x0F) < 16" by (simp add: word_le_nat_alt)
qed

lemma digits_in: "n < 16 \<Longrightarrow> digits ! n \<in> set digits"
  by (intro nth_mem) (simp add: digits_def)

lemma digits_inject: "m < 16 \<Longrightarrow> n < 16 \<Longrightarrow> digits ! m = digits ! n \<longleftrightarrow> m = n"
  by (intro nth_eq_iff_index_eq) (simp_all add: digits_def)

lemma hex_text_Cons:
  "hex_text (b # bs) = digits ! unat (drop_bit 4 b) # digits ! unat (b AND 0x0F) # hex_text bs"
  by (simp add: hex_text_def)

lemma hex_text_set: "set (hex_text rf) \<subseteq> set digits"
  by (induction rf) (auto simp: hex_text_Cons nibbles digits_in hex_text_def [of "[]"])

lemma length_hex_text [simp]: "length (hex_text rf) = 2 * length rf"
  by (induction rf) (simp_all add: hex_text_Cons hex_text_def [of "[]"])

text \<open>The payload can be read back from its hexadecimal field.\<close>

lemma byte_nibbles:
  assumes "drop_bit 4 a = drop_bit 4 b" and "a AND 0x0F = b AND 0x0F"
  shows "a = (b :: byte)"
proof (rule bit_word_eqI)
  fix n assume "n < LENGTH(8)"
  have m: "(15 :: byte) = mask 4" by (simp add: mask_eq_exp_minus_1)
  show "bit a n = bit b n"
  proof (cases "n < 4")
    case True
    have "bit (a AND mask 4) n = bit (b AND mask 4) n" using assms(2) m by simp
    with True \<open>n < LENGTH(8)\<close> show ?thesis by (simp add: bit_simps)
  next
    case False
    have "bit (drop_bit 4 a) (n - 4) = bit (drop_bit 4 b) (n - 4)" using assms(1) by simp
    with False show ?thesis by (simp add: bit_simps)
  qed
qed

lemma digits_byte:
  "digits ! unat (drop_bit 4 a) = digits ! unat (drop_bit 4 b) \<and>
     digits ! unat (a AND 0x0F) = digits ! unat (b AND 0x0F) \<longleftrightarrow> a = b" for a b :: byte
proof -
  have "digits ! unat (drop_bit 4 a) = digits ! unat (drop_bit 4 b) \<longleftrightarrow> drop_bit 4 a = drop_bit 4 b"
    by (rule trans [OF digits_inject [OF nibbles(1) nibbles(1)] word_unat_eq_iff [symmetric]])
  moreover have "digits ! unat (a AND 0x0F) = digits ! unat (b AND 0x0F) \<longleftrightarrow> a AND 0x0F = b AND 0x0F"
    by (rule trans [OF digits_inject [OF nibbles(2) nibbles(2)] word_unat_eq_iff [symmetric]])
  ultimately show ?thesis using byte_nibbles [of a b] by (simp only:) blast
qed

lemma hex_text_inject: "hex_text xs = hex_text ys \<longleftrightarrow> xs = ys"
proof (induction xs arbitrary: ys)
  case Nil
  then show ?case by (cases ys) (simp_all add: hex_text_Cons hex_text_def [of "[]"])
next
  case (Cons x xs)
  show ?case
  proof (cases ys)
    case (Cons y ys')
    then show ?thesis
      using Cons.IH digits_byte [of x y] by (simp only: hex_text_Cons list.inject) blast
  qed (simp add: hex_text_Cons hex_text_def [of "[]"])
qed

lemma ascii_char_set: "ascii_char c \<notin> {CHR 0x00, CHR 0x0A, CHR 0x22}"
proof -
  have inv: "of_char (char_of (unat c) :: char) = unat c"
    using unat_byte_less [of c] by (simp add: of_char_of)
  have "char_of (unat c) \<noteq> d" if "unat c \<noteq> of_char d" for d :: char
    using that inv by auto
  moreover have "unat c \<noteq> 0" "unat c \<noteq> 10" if "c \<ge> 0x20" using that by (auto simp: word_le_nat_alt)
  moreover have "unat c \<noteq> 34" if "c \<noteq> 0x22" using that by (simp add: word_unat_eq_iff)
  ultimately show ?thesis by (simp add: ascii_char_def)
qed


text \<open>A head that has no null and no newline gives a record of one line.\<close>

lemma digits_plain: "c \<in> set digits \<Longrightarrow> c \<notin> {CHR 0x00, CHR 0x0A}"
  by (auto simp: digits_def)

lemma record_text_line:
  assumes "CHR 0x00 \<notin> set head" and "CHR 0x0A \<notin> set head"
  shows "CHR 0x00 \<notin> set (record_text head rf)"
    "\<exists>body. record_text head rf = body @ [CHR 0x0A] \<and> CHR 0x0A \<notin> set body"
proof -
  have h: "CHR 0x00 \<notin> set (hex_text rf)" "CHR 0x0A \<notin> set (hex_text rf)"
    using hex_text_set [of rf] digits_plain by blast+
  have a: "CHR 0x00 \<notin> set (map ascii_char rf)" "CHR 0x0A \<notin> set (map ascii_char rf)"
    by (simp_all add: image_iff) (metis insertCI ascii_char_set)+
  show "CHR 0x00 \<notin> set (record_text head rf)" using assms h a by (simp add: record_text_def)
  let ?b = "head @ '' hex='' @ hex_text rf @ '' ascii='' @ [CHR 0x22] @ map ascii_char rf @ [CHR 0x22]"
  have "record_text head rf = ?b @ [CHR 0x0A]" by (simp add: record_text_def)
  moreover have "CHR 0x0A \<notin> set ?b" using assms h a by simp
  ultimately show "\<exists>body. record_text head rf = body @ [CHR 0x0A] \<and> CHR 0x0A \<notin> set body" by blast
qed

lemma clip_line_line:
  assumes "t = body @ [CHR 0x0A]" and "CHR 0x0A \<notin> set body"
  shows "\<exists>body'. clip_line cap t = body' @ [CHR 0x0A] \<and> CHR 0x0A \<notin> set body'"
proof (cases "length t < cap")
  case False
  then have "take (cap - 2) t = take (cap - 2) body"
    using assms(1) by simp
  with False assms(2) show ?thesis by (auto simp: clip_line_def dest: in_set_takeD)
qed (use assms in \<open>auto simp: clip_line_def\<close>)

lemma length_record_text: "length (record_text head rf) = length head + 3 * length rf + 15"
  by (simp add: record_text_def)

lemma is_digit_plain: "is_digit c \<Longrightarrow> c \<notin> {CHR 0x00, CHR 0x0A}"
  by (auto simp: is_digit_def)

lemma show_nat_plain: "c \<in> set (show_nat n) \<Longrightarrow> c \<notin> {CHR 0x00, CHR 0x0A}"
  by (intro is_digit_plain show_nat_digits)

lemma show_centi_plain: "c \<in> set (show_centi i) \<Longrightarrow> c \<notin> {CHR 0x00, CHR 0x0A}"
proof -
  have d: "is_digit (char_of (48 + m mod 10))" for m :: nat by (simp add: is_digit_def)
  show "c \<in> set (show_centi i) \<Longrightarrow> c \<notin> {CHR 0x00, CHR 0x0A}"
    using is_digit_plain [OF d [of "nat \<bar>i\<bar> div 10"]] is_digit_plain [OF d [of "nat \<bar>i\<bar>"]]
      show_nat_plain [of c]
    by (auto simp: show_centi_def split: if_splits)
qed

lemma length_show_centi: "length (show_centi (sint (w :: i16))) \<le> 7"
proof -
  have "\<bar>sint w\<bar> \<le> 32768" using sint_range_size [of w] by (auto simp: word_size)
  then have "nat \<bar>sint w\<bar> div 100 < 10 ^ Suc 2" by simp
  from length_show_nat [OF this] show ?thesis by (cases "sint w < 0") (simp_all add: show_centi_def)
qed

lemma rx_head_plain:
  assumes "CHR 0x00 \<notin> set utc" and "CHR 0x0A \<notin> set utc"
  shows "CHR 0x00 \<notin> set (rx_head (Some utc) rssi snr n)" "CHR 0x0A \<notin> set (rx_head (Some utc) rssi snr n)"
  using assms show_centi_plain show_nat_plain by (auto simp: rx_head_def)

lemma length_rx_head:
  "n \<le> 255 \<Longrightarrow> length (rx_head (Some utc) rssi snr n) \<le> length utc + 36"
  using length_show_centi [of rssi] length_show_centi [of snr] length_show_nat [of n 2]
  by (simp add: rx_head_def)

lemma tx_head_plain:
  assumes "CHR 0x00 \<notin> set utc" and "CHR 0x0A \<notin> set utc" and "CHR 0x00 \<notin> set outcome" "CHR 0x0A \<notin> set outcome"
  shows "CHR 0x00 \<notin> set (tx_head (Some utc) (Some outcome) n)"
    "CHR 0x0A \<notin> set (tx_head (Some utc) (Some outcome) n)"
  using assms show_nat_plain by (auto simp: tx_head_def)

lemma length_tx_head:
  "n \<le> 255 \<Longrightarrow> length (tx_head (Some utc) (Some outcome) n) \<le> length utc + length outcome + 33"
  using length_show_nat [of n 2] by (simp add: tx_head_def)


subsection \<open>The log file\<close>

definition kMaxBytes :: nat where
  [simp]: "kMaxBytes = 5 * 1024 * 1024"

text \<open>\<open>rl_prev\<close> is the previous segment, the file \<^verbatim>\<open><path>.1\<close>, if it exists.\<close>

record RfLog =
  rl_open :: bool
  rl_path :: string
  rl_max_bytes :: nat
  rl_live :: string
  rl_prev :: "string option"

text \<open>The answers of the system calls for one record.  \<^verbatim>\<open>pread\<close> before the end of the file
  gives at least one byte.\<close>

datatype PreadItem = PreadOk nat | PreadErr Errno

record RfSys =
  fstat_ok :: bool
  prev_open_ok :: bool
  preads :: "PreadItem list"
  prev_writes :: "SendItem list"
  ftruncate_ok :: bool
  live_writes :: "SendItem list"

text \<open>The loop around \<^verbatim>\<open>write\<close>: whether it ran to the end, the rest of the script and the
  contents of the file.\<close>

fun write_all :: "SendItem list \<Rightarrow> string \<Rightarrow> string \<Rightarrow> bool \<times> SendItem list \<times> string" where
  "write_all sc file [] = (True, sc, file)"
| "write_all [] file data = (True, [], file @ data)"
| "write_all (SendErr EINTR # sc) file data = write_all sc file data"
| "write_all (SendErr EAGAIN # sc) file data = (False, sc, file)"
| "write_all (SendErr EOTHER # sc) file data = (False, sc, file)"
| "write_all (SendOk n # sc) file data = write_all sc (file @ take n data) (drop n data)"

text \<open>The copy loop from an offset of the live file.\<close>

function copy_loop ::
  "PreadItem list \<Rightarrow> SendItem list \<Rightarrow> string \<Rightarrow> nat \<Rightarrow> string \<Rightarrow> bool \<times> string" where
  "copy_loop ps sc live off prev =
     (case ps of
        PreadErr EINTR # ps' \<Rightarrow> copy_loop ps' sc live off prev
      | PreadErr _ # ps' \<Rightarrow> (False, prev)
      | _ \<Rightarrow>
          let size = (case ps of PreadOk n # _ \<Rightarrow> min (max 1 n) 65536 | _ \<Rightarrow> 65536);
              chunk = take size (drop off live)
          in if chunk = [] then (True, prev)
             else case write_all sc prev chunk of
               (False, _, prev) \<Rightarrow> (False, prev)
             | (True, sc, prev) \<Rightarrow> copy_loop (tl ps) sc live (off + length chunk) prev)"
  by pat_completeness auto
termination
  by (relation "measure (\<lambda>(ps, sc, live, off, prev). length ps + (length live - off))") auto

declare copy_loop.simps [simp del]

text \<open>\<^verbatim>\<open>open\<close> of the previous segment truncates it.\<close>

definition copy_to_previous :: "RfSys \<Rightarrow> RfLog \<Rightarrow> bool \<times> RfLog" where
  "copy_to_previous sys l =
     (if \<not> prev_open_ok sys then (False, l)
      else
        let (ok, prev) = copy_loop (preads sys) (prev_writes sys) (rl_live l) 0 []
        in (ok, l\<lparr>rl_prev := Some prev\<rparr>))"

definition roll :: "RfSys \<Rightarrow> nat \<Rightarrow> RfLog \<Rightarrow> RfLog" where
  "roll sys n l =
     (if fstat_ok sys \<and> length (rl_live l) + n > rl_max_bytes l
      then case copy_to_previous sys l of
        (ok, l') \<Rightarrow> if ok \<and> ftruncate_ok sys then l'\<lparr>rl_live := []\<rparr> else l'
      else l)"

definition write_line :: "RfSys \<Rightarrow> string \<Rightarrow> RfLog \<Rightarrow> RfLog" where
  "write_line sys line l =
     (let l = roll sys (length line) l;
          (_, _, live) = write_all (live_writes sys) (rl_live l) line
      in l\<lparr>rl_live := live\<rparr>)"

text \<open>Opening gives the error message of the system, or what is on disk at the path and of the
  previous segment.\<close>

definition open_log ::
  "string \<Rightarrow> (string + string \<times> string option) \<Rightarrow> RfLog \<Rightarrow> (string + unit) \<times> RfLog" where
  "open_log path disk l =
     (if path = [] \<or> hd path \<noteq> CHR ''/'' then (Inl ''--rflog-path must be an absolute path'', l)
      else case disk of
        Inl strerror \<Rightarrow> (Inl (''cannot open RF log '' @ path @ '': '' @ strerror), l)
      | Inr (live, prev) \<Rightarrow>
          (Inr (), l\<lparr>rl_open := True, rl_path := path, rl_live := live, rl_prev := prev\<rparr>))"

definition close_log :: "RfLog \<Rightarrow> RfLog" where
  "close_log l = l\<lparr>rl_open := False, rl_path := [], rl_max_bytes := kMaxBytes\<rparr>"

definition active :: "RfLog \<Rightarrow> bool" where
  "active l \<longleftrightarrow> rl_open l"

definition set_max_bytes :: "nat \<Rightarrow> RfLog \<Rightarrow> RfLog" where
  "set_max_bytes n l = l\<lparr>rl_max_bytes := n\<rparr>"

text \<open>The line buffer starts with arbitrary characters; \<open>n\<close> of them are written.\<close>

definition log_rx :: "RfSys \<Rightarrow> string \<Rightarrow> string \<Rightarrow> i16 \<Rightarrow> i16 \<Rightarrow> byte list \<Rightarrow> RfLog \<Rightarrow> RfLog" where
  "log_rx sys stack utc rssi snr rf l =
     (if \<not> rl_open l then l
      else case format_rx (Some stack) kLineMax (Some utc) rssi snr rf of
        None \<Rightarrow> write_line sys [] l
      | Some (line, n) \<Rightarrow> write_line sys (take n line) l)"

definition log_tx :: "RfSys \<Rightarrow> string \<Rightarrow> string \<Rightarrow> string \<Rightarrow> byte list \<Rightarrow> RfLog \<Rightarrow> RfLog" where
  "log_tx sys stack utc outcome rf l =
     (if \<not> rl_open l then l
      else case format_tx (Some stack) kLineMax (Some utc) (Some outcome) rf of
        None \<Rightarrow> write_line sys [] l
      | Some (line, n) \<Rightarrow> write_line sys (take n line) l)"

subsection \<open>Retention\<close>

lemma write_all_prefix:
  "write_all sc f d = (ok, sc', f') \<Longrightarrow> \<exists>w r. d = w @ r \<and> f' = f @ w \<and> (ok \<longrightarrow> r = [])"
proof (induction sc arbitrary: f d)
  case Nil
  then show ?case by (cases d) auto
next
  case (Cons i sc)
  show ?case
  proof (cases "d = []")
    case True
    with Cons.prems show ?thesis by simp
  next
    case False
    then obtain x xs where d: "d = x # xs" by (cases d) auto
    consider (ok) n where "i = SendOk n" | (intr) "i = SendErr EINTR"
      | (err) e where "i = SendErr e" "e \<noteq> EINTR" by (cases i) auto
    then show ?thesis
    proof cases
      case ok
      with Cons.prems d have "write_all sc (f @ take n d) (drop n d) = (ok, sc', f')" by simp
      then obtain w r where wr: "drop n d = w @ r" "f' = (f @ take n d) @ w" "ok \<longrightarrow> r = []"
        using Cons.IH by blast
      have "d = (take n d @ w) @ r" using wr(1) append_take_drop_id [of n d] by simp
      with wr show ?thesis by (intro exI [of _ "take n d @ w"] exI [of _ r]) simp
    next
      case intr
      with Cons.prems d Cons.IH [of f d] show ?thesis by simp
    next
      case err
      then have "write_all (i # sc) f d = (False, sc, f)" using d by (cases e) auto
      with Cons.prems show ?thesis by auto
    qed
  qed
qed

lemma take_drop_length: "take n xs @ drop (length (take n xs)) xs = xs"
  by (cases "n \<le> length xs") simp_all

text \<open>A copy that succeeds is complete; one that fails has left some prefix.\<close>

text \<open>One round of the copy that is not answered with an error.\<close>

lemma copy_loop_read:
  assumes "\<forall>e ps'. ps \<noteq> PreadErr e # ps'"
  obtains size where "0 < size" and "copy_loop ps sc live off prev =
     (let chunk = take size (drop off live) in
      if chunk = [] then (True, prev)
      else case write_all sc prev chunk of (False, _, prev) \<Rightarrow> (False, prev)
        | (True, sc, prev) \<Rightarrow> copy_loop (tl ps) sc live (off + length chunk) prev)"
proof (cases ps)
  case Nil
  show thesis
    by (rule that [of 65536]) (simp, subst copy_loop.simps, simp only: Nil list.case Let_def)
next
  case (Cons p ps')
  with assms obtain n where p: "p = PreadOk n" by (cases p) auto
  show thesis
    by (rule that [of "min (max 1 n) 65536"])
       (simp, subst copy_loop.simps, simp only: Cons p list.case PreadItem.case Let_def)
qed

lemma copy_loop_ok:
  "copy_loop ps sc live off prev = (True, prev') \<Longrightarrow> prev' = prev @ drop off live"
proof (induction "length ps + (length live - off)" arbitrary: ps sc off prev rule: less_induct)
  case less
  consider (intr) ps' where "ps = PreadErr EINTR # ps'" | (err) e ps' where "ps = PreadErr e # ps'" "e \<noteq> EINTR"
    | (read) "\<forall>e ps'. ps \<noteq> PreadErr e # ps'"
    by (metis (full_types))
  then show ?case
  proof cases
    case intr
    then have "copy_loop ps sc live off prev = copy_loop ps' sc live off prev"
      by (subst copy_loop.simps) simp
    with intr less.hyps [of ps' off sc prev] less.prems show ?thesis by simp
  next
    case err
    then have "copy_loop ps sc live off prev = (False, prev)"
      by (subst copy_loop.simps) (simp split: Errno.split)
    with less.prems show ?thesis by simp
  next
    case read
    obtain size where pos: "0 < size" and step: "copy_loop ps sc live off prev =
       (let chunk = take size (drop off live) in
        if chunk = [] then (True, prev)
        else case write_all sc prev chunk of (False, _, prev) \<Rightarrow> (False, prev)
          | (True, sc, prev) \<Rightarrow> copy_loop (tl ps) sc live (off + length chunk) prev)"
      by (rule copy_loop_read [OF read])
    let ?chunk = "take size (drop off live)"
    show ?thesis
    proof (cases "?chunk = []")
      case True
      with less.prems step pos show ?thesis by simp
    next
      case False
      obtain ok sc1 prev1 where w: "write_all sc prev ?chunk = (ok, sc1, prev1)" by (metis prod_cases3)
      with False step less.prems have ok: "ok" by (cases ok) auto
      then have prev1: "prev1 = prev @ ?chunk" using write_all_prefix [OF w] by auto
      have "copy_loop (tl ps) sc1 live (off + length ?chunk) prev1 = (True, prev')"
        using less.prems step False w ok by simp
      moreover have "length (tl ps) + (length live - (off + length ?chunk)) < length ps + (length live - off)"
        using False by (auto simp: min_def)
      ultimately have "prev' = prev1 @ drop (off + length ?chunk) live" by (intro less.hyps)
      moreover have "?chunk @ drop (off + length ?chunk) live = drop off live"
        by (simp only: drop_drop [symmetric] add.commute [of off] take_drop_length)
      ultimately show ?thesis using prev1 by simp
    qed
  qed
qed

text \<open>What one record does to the two files: the live file is kept, or moved to the previous
  segment as a whole, and then extended by a prefix of the line.\<close>

lemma copy_to_previous_frame:
  "copy_to_previous sys l = (ok, l') \<Longrightarrow>
     rl_live l' = rl_live l \<and> rl_max_bytes l' = rl_max_bytes l \<and> rl_open l' = rl_open l \<and>
     rl_path l' = rl_path l \<and> (ok \<longrightarrow> rl_prev l' = Some (rl_live l))"
  using copy_loop_ok [of "preads sys" "prev_writes sys" "rl_live l" 0 "[]"]
  by (auto simp: copy_to_previous_def split: if_splits prod.splits)

definition rolls :: "RfSys \<Rightarrow> nat \<Rightarrow> RfLog \<Rightarrow> bool" where
  "rolls sys n l \<longleftrightarrow> fstat_ok sys \<and> length (rl_live l) + n > rl_max_bytes l \<and>
     fst (copy_to_previous sys l) \<and> ftruncate_ok sys"

lemma roll_live: "rl_live (roll sys n l) = (if rolls sys n l then [] else rl_live l)"
  by (cases "copy_to_previous sys l", frule copy_to_previous_frame) (simp add: roll_def rolls_def)

lemma roll_prev: "rolls sys n l \<Longrightarrow> rl_prev (roll sys n l) = Some (rl_live l)"
  by (cases "copy_to_previous sys l", frule copy_to_previous_frame) (simp add: roll_def rolls_def)

lemma roll_frame:
  "rl_max_bytes (roll sys n l) = rl_max_bytes l \<and> rl_open (roll sys n l) = rl_open l"
  by (cases "copy_to_previous sys l", frule copy_to_previous_frame) (simp add: roll_def)

end
