(* ===== verification/Bridge_Options.thy ===== *)
theory Bridge_Options
  imports Loraham_Transport Xr_Session
begin

text \<open>
  The command line, the first half of \<^verbatim>\<open>src/src/main.cpp\<close>: \<^verbatim>\<open>strtoul\<close> as the two numeric options
  use it, the argument loop and the checks after it.  An early return is its exit code with
  the message of \<^verbatim>\<open>logf\<close> (without the line end); the texts of \<^verbatim>\<open>usage\<close> and \<^verbatim>\<open>--version\<close> are not
  modelled.
\<close>

subsection \<open>Numbers on the command line\<close>

text \<open>\<^verbatim>\<open>isspace\<close> in the C locale.\<close>

definition is_space :: "char \<Rightarrow> bool" where
  "is_space c \<longleftrightarrow> c = CHR '' '' \<or> 9 \<le> (of_char c :: nat) \<and> (of_char c :: nat) \<le> 13"

text \<open>\<^verbatim>\<open>strtoul(v, &end, 10)\<close> with a 64-bit \<^verbatim>\<open>unsigned long\<close>: the value, whether \<^verbatim>\<open>end\<close> moved, the
  rest of the string at \<^verbatim>\<open>end\<close>, and whether \<^verbatim>\<open>errno\<close> is set.  A minus sign negates the value
  modulo \<open>2 ^ 64\<close>.\<close>

fun sign :: "string \<Rightarrow> bool \<times> string" where
  "sign [] = (False, [])"
| "sign (c # s) =
     (if c = CHR ''-'' then (True, s) else if c = CHR ''+'' then (False, s) else (False, c # s))"

definition strtoul :: "string \<Rightarrow> u64 \<times> bool \<times> string \<times> bool" where
  "strtoul v =
     (let (neg, s) = sign (dropWhile is_space v);
          ds = takeWhile is_digit s;
          n = read_nat ds
      in if ds = [] then (0, False, v, False)
         else if n \<ge> 2 ^ 64 then (UINT64_MAX, True, dropWhile is_digit s, True)
         else (if neg then - of_nat n else of_nat n, True, dropWhile is_digit s, False))"

definition parse_port :: "string \<Rightarrow> u16 option" where
  "parse_port v =
     (let (p, moved, rest, errno) = strtoul v
      in if \<not> moved \<or> rest \<noteq> [] \<or> errno \<or> p > 65535 then None else Some (ucast p))"

definition parse_ms :: "string \<Rightarrow> u64 option" where
  "parse_ms v =
     (let (p, moved, rest, errno) = strtoul v
      in if \<not> moved \<or> rest \<noteq> [] \<or> errno \<or> p < 1 \<or> p > 3600000 then None else Some p)"

subsection \<open>The argument loop\<close>

record Options =
  bind_addr :: string
  port :: u16
  password_file :: string
  backend_name :: string
  rflog_on :: bool
  rflog_path :: string
  data_socket :: string
  conf_socket :: string
  timeouts :: Timeouts

definition default_options :: Options where
  "default_options = \<lparr>bind_addr = ''127.0.0.1'', port = 7000, password_file = [],
     backend_name = ''fake'', rflog_on = False, rflog_path = [], data_socket = [],
     conf_socket = [], timeouts = default_timeouts\<rparr>"

type_synonym exit = "nat \<times> string"

definition next_arg :: "string \<Rightarrow> string list \<Rightarrow> exit + string \<times> string list" where
  "next_arg name rest =
     (case rest of
        [] \<Rightarrow> Inl (2, ''error: '' @ name @ '' requires a value'')
      | v # rest \<Rightarrow> Inr (v, rest))"

definition next_ms :: "string \<Rightarrow> string list \<Rightarrow> exit + u64 \<times> string list" where
  "next_ms name rest =
     (case next_arg name rest of
        Inl e \<Rightarrow> Inl e
      | Inr (v, rest) \<Rightarrow>
          (case parse_ms v of
             None \<Rightarrow> Inl (2, ''error: '' @ name @ '' must be an integer in [1, 3600000]'')
           | Some p \<Rightarrow> Inr (p, rest)))"

definition quoted :: "string \<Rightarrow> string" where
  "quoted s = CHR 0x27 # s @ [CHR 0x27]"

text \<open>An option that takes a value: \<open>upd\<close> stores it or refuses it.\<close>

definition with_value ::
  "string \<Rightarrow> string list \<Rightarrow> (string \<Rightarrow> exit + Options) \<Rightarrow> exit + Options \<times> string list" where
  "with_value name rest upd =
     (case next_arg name rest of
        Inl e \<Rightarrow> Inl e
      | Inr (v, rest) \<Rightarrow> (case upd v of Inl e \<Rightarrow> Inl e | Inr opts \<Rightarrow> Inr (opts, rest)))"

definition parse_arg :: "string \<Rightarrow> string list \<Rightarrow> Options \<Rightarrow> exit + Options \<times> string list" where
  "parse_arg a rest opts =
     (if a = ''--bind'' then with_value a rest (\<lambda>v. Inr (opts\<lparr>bind_addr := v\<rparr>))
      else if a = ''--port'' then with_value a rest (\<lambda>v. case parse_port v of
          None \<Rightarrow> Inl (2, ''error: --port must be an integer in [0, 65535]'')
        | Some p \<Rightarrow> Inr (opts\<lparr>port := p\<rparr>))
      else if a = ''--password-file'' then with_value a rest (\<lambda>v. Inr (opts\<lparr>password_file := v\<rparr>))
      else if a = ''--backend'' then with_value a rest (\<lambda>v. Inr (opts\<lparr>backend_name := v\<rparr>))
      else if a = ''--rflog'' then with_value a rest (\<lambda>v.
          if v \<noteq> ''on'' \<and> v \<noteq> ''off'' then Inl (2, ''error: --rflog must be '' @ quoted ''on'' @ '' or '' @ quoted ''off'')
          else Inr (opts\<lparr>rflog_on := (v = ''on'')\<rparr>))
      else if a = ''--rflog-path'' then with_value a rest (\<lambda>v. Inr (opts\<lparr>rflog_path := v\<rparr>))
      else if a = ''--data-socket'' \<or> a = ''--conf-socket'' then with_value a rest (\<lambda>v.
          let why = socket_path_error v in
          if why \<noteq> [] then Inl (2, ''error: '' @ a @ '' '' @ why)
          else Inr (if a = ''--data-socket'' then opts\<lparr>data_socket := v\<rparr>
                    else opts\<lparr>conf_socket := v\<rparr>))
      else if a = ''--ping-interval-ms'' then
        (case next_ms a rest of
           Inl e \<Rightarrow> Inl e
         | Inr (p, rest) \<Rightarrow> Inr (opts\<lparr>timeouts := (timeouts opts)\<lparr>ping_interval_ms := p\<rparr>\<rparr>, rest))
      else if a = ''--pong-timeout-ms'' then
        (case next_ms a rest of
           Inl e \<Rightarrow> Inl e
         | Inr (p, rest) \<Rightarrow> Inr (opts\<lparr>timeouts := (timeouts opts)\<lparr>pong_timeout_ms := p\<rparr>\<rparr>, rest))
      else if a = ''-v'' \<or> a = ''--version'' then Inl (0, [])
      else if a = ''-h'' \<or> a = ''--help'' then Inl (0, [])
      else Inl (2, ''error: unknown argument '' @ quoted a))"

lemma with_value_rest:
  "with_value name rest upd = Inr (opts, rest') \<Longrightarrow> length rest' < length rest"
  by (auto simp: with_value_def next_arg_def split: list.splits sum.splits)

lemma next_ms_rest: "next_ms name rest = Inr (p, rest') \<Longrightarrow> length rest' < length rest"
  by (auto simp: next_ms_def next_arg_def split: list.splits sum.splits option.splits)

lemma if_resultE: "(if c then x else y) = z \<Longrightarrow> (x = z \<Longrightarrow> P) \<Longrightarrow> (y = z \<Longrightarrow> P) \<Longrightarrow> P"
  by (cases c) auto

lemma parse_arg_rest:
  "parse_arg a rest opts = Inr (opts', rest') \<Longrightarrow> length rest' < length rest"
  unfolding parse_arg_def
  by (elim if_resultE) (auto dest: with_value_rest next_ms_rest split: sum.split_asm)

function parse_args :: "string list \<Rightarrow> Options \<Rightarrow> exit + Options" where
  "parse_args [] opts = Inr opts"
| "parse_args (a # rest) opts =
     (case parse_arg a rest opts of
        Inl e \<Rightarrow> Inl e
      | Inr (opts, rest) \<Rightarrow> parse_args rest opts)"
  by pat_completeness auto
termination
  by (relation "measure (\<lambda>(args, opts). length args)") (auto dest: parse_arg_rest)

declare parse_args.simps(2) [simp del]

text \<open>The checks of the socket pair.\<close>

definition check_sockets :: "Options \<Rightarrow> exit + unit" where
  "check_sockets opts =
     (if (data_socket opts = []) \<noteq> (conf_socket opts = []) then
        Inl (2, ''error: '' @ (if data_socket opts = [] then ''--conf-socket'' else ''--data-socket'') @
          '' needs '' @ (if data_socket opts = [] then ''--data-socket'' else ''--conf-socket'') @
          '' (both name one radio'' @ [CHR 0x27] @ ''s sockets)'')
      else if (data_socket opts \<noteq> [] \<or> conf_socket opts \<noteq> []) \<and> backend_name opts \<noteq> ''loraham'' then
        Inl (2, ''error: --data-socket/--conf-socket need --backend loraham'')
      else Inr ())"

subsection \<open>Numbers\<close>

lemma digit_not_space: "is_digit c \<Longrightarrow> \<not> is_space c"
  by (auto simp: is_digit_def is_space_def)

lemma digit_not_sign: "is_digit c \<Longrightarrow> c \<noteq> CHR ''-'' \<and> c \<noteq> CHR ''+''"
  by (auto simp: is_digit_def)

lemma digits_strtoul:
  assumes "ds \<noteq> []" and "\<And>c. c \<in> set ds \<Longrightarrow> is_digit c"
  shows "strtoul ds = (if read_nat ds \<ge> 2 ^ 64 then (UINT64_MAX, True, [], True)
     else (of_nat (read_nat ds), True, [], False))"
proof -
  obtain d r where ds: "ds = d # r" using assms(1) by (cases ds) auto
  then have "is_digit d" using assms(2) by simp
  then have sg: "sign (dropWhile is_space ds) = (False, ds)"
    using digit_not_space digit_not_sign by (simp add: ds)
  have all: "takeWhile is_digit ds = ds" "dropWhile is_digit ds = []"
    using assms(2) by (auto simp: takeWhile_eq_all_conv)
  show ?thesis using assms(1) unfolding strtoul_def sg by (simp only: prod.case Let_def all) simp
qed

lemma strtoul_show_nat:
  "strtoul (show_nat n) = (if n \<ge> 2 ^ 64 then (UINT64_MAX, True, [], True) else (of_nat n, True, [], False))"
  using digits_strtoul [of "show_nat n"] show_nat_digits by simp

lemma of_nat_u64_le: "n < 2 ^ 64 \<Longrightarrow> (of_nat n :: u64) \<le> of_nat m \<longleftrightarrow> n \<le> m" if "m < 2 ^ 64"
  using that by (simp add: word_le_nat_alt unat_of_nat)

lemma ucast_port: "n \<le> 65535 \<Longrightarrow> (ucast (of_nat n :: u64) :: u16) = of_nat n"
  by (simp add: word_unat_eq_iff unsigned_ucast_eq unat_of_nat take_bit_nat_eq_self_iff)

lemma parse_port_show_nat:
  "parse_port (show_nat n) = (if n \<le> 65535 then Some (of_nat n) else None)"
  using of_nat_u64_le [of 65535 n]
  by (auto simp: parse_port_def strtoul_show_nat not_le ucast_port)

lemma parse_ms_show_nat:
  "parse_ms (show_nat n) = (if 1 \<le> n \<and> n \<le> 3600000 then Some (of_nat n) else None)"
  using of_nat_u64_le [of 3600000 n] of_nat_u64_le [of 0 n]
  by (auto simp: parse_ms_def strtoul_show_nat not_le not_less word_less_nat_alt unat_of_nat)

lemma parse_ms_range: "parse_ms v = Some p \<Longrightarrow> p \<noteq> 0 \<and> p \<le> 3600000"
  by (simp add: parse_ms_def Let_def split_beta not_less split: if_splits)

subsection \<open>What an accepted command line satisfies\<close>

definition socket_option :: "string \<Rightarrow> bool" where
  "socket_option v \<longleftrightarrow> v = [] \<or> socket_path_error v = []"

definition options_ok :: "Options \<Rightarrow> bool" where
  "options_ok opts \<longleftrightarrow> socket_option (data_socket opts) \<and> socket_option (conf_socket opts) \<and>
     (\<exists>ping pong. timeouts opts = default_timeouts\<lparr>ping_interval_ms := ping, pong_timeout_ms := pong\<rparr> \<and>
        ping \<noteq> 0 \<and> ping \<le> 3600000 \<and> pong \<noteq> 0 \<and> pong \<le> 3600000)"

lemma options_ok_default: "options_ok default_options"
  by (auto simp: options_ok_def default_options_def default_timeouts_def socket_option_def
      intro!: exI [of _ 15000] exI [of _ 10000])

lemma with_value_InrE:
  assumes "with_value name rest upd = Inr (opts, rest')"
  obtains v where "rest = v # rest'" and "upd v = Inr opts"
  using assms by (auto simp: with_value_def next_arg_def split: list.splits sum.splits)

lemma next_ms_InrE:
  assumes "next_ms name rest = Inr (p, rest')"
  obtains v where "rest = v # rest'" and "parse_ms v = Some p"
  using assms by (auto simp: next_ms_def next_arg_def split: list.splits option.splits)

lemma options_ok_fields [simp]:
  "options_ok (opts\<lparr>bind_addr := v\<rparr>) = options_ok opts"
  "options_ok (opts\<lparr>port := p\<rparr>) = options_ok opts"
  "options_ok (opts\<lparr>password_file := v\<rparr>) = options_ok opts"
  "options_ok (opts\<lparr>backend_name := v\<rparr>) = options_ok opts"
  "options_ok (opts\<lparr>rflog_on := b\<rparr>) = options_ok opts"
  "options_ok (opts\<lparr>rflog_path := v\<rparr>) = options_ok opts"
  by (simp_all add: options_ok_def)

lemma options_ok_socket:
  assumes "options_ok opts" and "socket_path_error v = []"
  shows "options_ok (opts\<lparr>data_socket := v\<rparr>)" "options_ok (opts\<lparr>conf_socket := v\<rparr>)"
  using assms by (simp_all add: options_ok_def socket_option_def)

lemma options_ok_timeouts:
  assumes "options_ok opts" and "parse_ms v = Some p"
  shows "options_ok (opts\<lparr>timeouts := (timeouts opts)\<lparr>ping_interval_ms := p\<rparr>\<rparr>)"
    "options_ok (opts\<lparr>timeouts := (timeouts opts)\<lparr>pong_timeout_ms := p\<rparr>\<rparr>)"
  using assms parse_ms_range [of v p] by (auto simp: options_ok_def default_timeouts_def)

lemma parse_arg_ok:
  assumes "parse_arg a rest opts = Inr (opts', rest')" and "options_ok opts"
  shows "options_ok opts'"
  using assms(1) unfolding parse_arg_def
  by (elim if_resultE)
     (use assms(2) in \<open>auto elim!: with_value_InrE next_ms_InrE simp: Let_def options_ok_socket
        options_ok_timeouts split: option.splits if_split_asm sum.split_asm\<close>)

lemma parse_args_ok: "parse_args args opts = Inr opts' \<Longrightarrow> options_ok opts \<Longrightarrow> options_ok opts'"
  by (induction args opts rule: parse_args.induct)
     (auto simp: parse_args.simps(2) split: sum.splits dest: parse_arg_ok)

text \<open>Every refusal of the command line has exit code 2; the two informational options have 0.\<close>

lemma with_value_InlE:
  assumes "with_value name rest upd = Inl e"
  obtains "fst e = 2" | v where "upd v = Inl e"
  using assms by (auto simp: with_value_def next_arg_def split: list.splits sum.splits)

lemma next_ms_code: "next_ms name rest = Inl e \<Longrightarrow> fst e = 2"
  by (auto simp: next_ms_def next_arg_def split: list.splits sum.splits option.splits)

lemma parse_arg_code: "parse_arg a rest opts = Inl e \<Longrightarrow> fst e = 2 \<or> e = (0, [])"
  unfolding parse_arg_def
  by (elim if_resultE)
     (auto elim!: with_value_InlE simp: Let_def next_ms_code split: option.splits if_split_asm
        sum.split_asm prod.split_asm)

lemma parse_args_code: "parse_args args opts = Inl e \<Longrightarrow> fst e = 2 \<or> e = (0, [])"
  by (induction args opts rule: parse_args.induct)
     (auto simp: parse_args.simps(2) split: sum.splits dest: parse_arg_code)

lemma check_sockets_Inr:
  "check_sockets opts = Inr u \<longleftrightarrow> (data_socket opts = []) = (conf_socket opts = []) \<and>
     (data_socket opts \<noteq> [] \<longrightarrow> backend_name opts = ''loraham'')"
  by (auto simp: check_sockets_def)

subsection \<open>Options written out\<close>

text \<open>A command line that gives every option, in the order of the usage text.\<close>

definition flag :: "string \<Rightarrow> string \<Rightarrow> string list" where
  "flag name v = (if v = [] then [] else [name, v])"

definition render :: "Options \<Rightarrow> string list" where
  "render opts =
     [''--bind'', bind_addr opts, ''--port'', show_nat (unat (port opts)),
      ''--password-file'', password_file opts, ''--backend'', backend_name opts,
      ''--rflog'', if rflog_on opts then ''on'' else ''off'', ''--rflog-path'', rflog_path opts] @
     flag ''--data-socket'' (data_socket opts) @ flag ''--conf-socket'' (conf_socket opts) @
     [''--ping-interval-ms'', show_nat (unat (ping_interval_ms (timeouts opts))),
      ''--pong-timeout-ms'', show_nat (unat (pong_timeout_ms (timeouts opts)))]"

lemma parse_strings:
  "parse_args (''--bind'' # v # rest) opts = parse_args rest (opts\<lparr>bind_addr := v\<rparr>)"
  "parse_args (''--password-file'' # v # rest) opts = parse_args rest (opts\<lparr>password_file := v\<rparr>)"
  "parse_args (''--backend'' # v # rest) opts = parse_args rest (opts\<lparr>backend_name := v\<rparr>)"
  "parse_args (''--rflog-path'' # v # rest) opts = parse_args rest (opts\<lparr>rflog_path := v\<rparr>)"
  by (simp_all add: parse_args.simps(2) parse_arg_def with_value_def next_arg_def)

lemma parse_rflog:
  "parse_args (''--rflog'' # (if b then ''on'' else ''off'') # rest) opts =
     parse_args rest (opts\<lparr>rflog_on := b\<rparr>)"
  by (cases b) (simp_all add: parse_args.simps(2) parse_arg_def with_value_def next_arg_def)

lemma parse_port_arg:
  "parse_args (''--port'' # show_nat (unat (p :: u16)) # rest) opts = parse_args rest (opts\<lparr>port := p\<rparr>)"
proof -
  have "unat p \<le> 65535" using unsigned_less [where ?'b = 16 and ?'a = nat, of p] by simp
  then show ?thesis
    by (simp add: parse_args.simps(2) parse_arg_def with_value_def next_arg_def parse_port_show_nat)
qed

lemma no_socket:
  "data_socket opts = [] \<Longrightarrow> opts\<lparr>data_socket := []\<rparr> = opts"
  "conf_socket opts = [] \<Longrightarrow> opts\<lparr>conf_socket := []\<rparr> = opts"
  by (cases opts, simp)+

lemma parse_socket:
  assumes "socket_option v"
  shows "data_socket opts = [] \<Longrightarrow> parse_args (flag ''--data-socket'' v @ rest) opts =
      parse_args rest (opts\<lparr>data_socket := v\<rparr>)"
    "conf_socket opts = [] \<Longrightarrow> parse_args (flag ''--conf-socket'' v @ rest) opts =
      parse_args rest (opts\<lparr>conf_socket := v\<rparr>)"
  using assms
  by (auto simp: flag_def socket_option_def parse_args.simps(2) parse_arg_def with_value_def
      next_arg_def no_socket)

lemma parse_timeouts:
  assumes "p \<noteq> 0" and "p \<le> (3600000 :: u64)"
  shows "parse_args (''--ping-interval-ms'' # show_nat (unat p) # rest) opts =
      parse_args rest (opts\<lparr>timeouts := (timeouts opts)\<lparr>ping_interval_ms := p\<rparr>\<rparr>)"
    "parse_args (''--pong-timeout-ms'' # show_nat (unat p) # rest) opts =
      parse_args rest (opts\<lparr>timeouts := (timeouts opts)\<lparr>pong_timeout_ms := p\<rparr>\<rparr>)"
proof -
  have "1 \<le> unat p" "unat p \<le> 3600000"
    using assms by (simp_all add: word_le_nat_alt unat_gt_0 Suc_le_eq)
  then have "parse_ms (show_nat (unat p)) = Some p" by (simp add: parse_ms_show_nat)
  then show "parse_args (''--ping-interval-ms'' # show_nat (unat p) # rest) opts =
      parse_args rest (opts\<lparr>timeouts := (timeouts opts)\<lparr>ping_interval_ms := p\<rparr>\<rparr>)"
    "parse_args (''--pong-timeout-ms'' # show_nat (unat p) # rest) opts =
      parse_args rest (opts\<lparr>timeouts := (timeouts opts)\<lparr>pong_timeout_ms := p\<rparr>\<rparr>)"
    by (simp_all add: parse_args.simps(2) parse_arg_def next_ms_def next_arg_def)
qed

lemma parse_args_render:
  assumes "options_ok opts"
  shows "parse_args (render opts) default_options = Inr opts"
proof -
  obtain ping pong where t: "timeouts opts = default_timeouts\<lparr>ping_interval_ms := ping, pong_timeout_ms := pong\<rparr>"
    "ping \<noteq> 0" "ping \<le> 3600000" "pong \<noteq> 0" "pong \<le> 3600000"
    and s: "socket_option (data_socket opts)" "socket_option (conf_socket opts)"
    using assms by (auto simp: options_ok_def)
  show ?thesis
    using t s by (cases opts)
      (simp add: render_def parse_strings parse_rflog parse_port_arg parse_socket parse_timeouts default_options_def default_timeouts_def)
qed

end
