(* ===== verification/Bridge_Main.thy ===== *)
theory Bridge_Main
  imports Fake_Backend Loraham_Contract Rf_Log Bridge_Options
begin

text \<open>
  Start-up and life of the process, the second half of \<^verbatim>\<open>src/src/main.cpp\<close>: the steps in their
  order, each with its exit code and message.  What the operating system answers while
  starting is a record.
\<close>

subsection \<open>Start-up\<close>

text \<open>What the system answers: the contents of the password file, of the log and its previous
  segment, which paths are sockets, and the calls of \<^verbatim>\<open>listen\<close> for an address and a port.\<close>

record BootSys =
  read_file :: "string \<Rightarrow> password_file option"
  open_rflog :: "string \<Rightarrow> string + string \<times> string option"
  is_socket :: "string \<Rightarrow> bool"
  listen_sys :: "string \<Rightarrow> u16 \<Rightarrow> ListenSys"

primrec password_error_text :: "password_error \<Rightarrow> string" where
  "password_error_text CannotOpen = ''cannot open password file''"
| "password_error_text TooLarge = ''password file too large''"
| "password_error_text ReadError = ''error reading password file''"
| "password_error_text EmptyPassword = ''password file is empty''"

definition load_auth :: "BootSys \<Rightarrow> Options \<Rightarrow> exit + AuthConfig" where
  "load_auth sys opts =
     (if password_file opts = [] then Inr open_auth
      else case from_password_file (read_file sys (password_file opts)) of
        Inl e \<Rightarrow> Inl (1, ''error: '' @ password_error_text e)
      | Inr a \<Rightarrow> Inr a)"

definition load_rflog :: "BootSys \<Rightarrow> Options \<Rightarrow> RfLog \<Rightarrow> exit + RfLog" where
  "load_rflog sys opts l =
     (if \<not> rflog_on opts then Inr l
      else if rflog_path opts = [] then
        Inl (2, ''error: --rflog on needs --rflog-path <absolute path>'')
      else case open_log (rflog_path opts) (open_rflog sys (rflog_path opts)) l of
        (Inl e, _) \<Rightarrow> Inl (1, ''error: '' @ e)
      | (Inr _, l) \<Rightarrow> Inr l)"

datatype backend_choice = UseFake | UseLoraham DaemonPaths

definition select_backend :: "BootSys \<Rightarrow> Options \<Rightarrow> exit + backend_choice" where
  "select_backend sys opts =
     (if backend_name opts = ''fake'' then Inr UseFake
      else if backend_name opts = ''loraham'' then
        Inr (UseLoraham (instance_daemon_paths (is_socket sys) (data_socket opts) (conf_socket opts)))
      else Inl (2, ''error: unknown backend '' @ quoted (backend_name opts) @ '' (use '' @
        quoted ''fake'' @ '' or '' @ quoted ''loraham'' @ '')''))"

definition kDefaultMaxOutbox :: nat where
  [simp]: "kDefaultMaxOutbox = 64 * 1024"

definition rflog_init :: RfLog where
  "rflog_init = \<lparr>rl_open = False, rl_path = [], rl_max_bytes = kMaxBytes, rl_live = [], rl_prev = None\<rparr>"

text \<open>Everything up to the event loop: the exit, or the backend, the server and the log.\<close>

definition start_bridge ::
  "BootSys \<Rightarrow> string list \<Rightarrow> exit + Options \<times> backend_choice \<times> XrServer \<times> RfLog" where
  "start_bridge sys args =
     (case parse_args args default_options of Inl e \<Rightarrow> Inl e | Inr opts \<Rightarrow>
      case check_sockets opts of Inl e \<Rightarrow> Inl e | Inr _ \<Rightarrow>
      case load_auth sys opts of Inl e \<Rightarrow> Inl e | Inr a \<Rightarrow>
      case load_rflog sys opts rflog_init of Inl e \<Rightarrow> Inl e | Inr l \<Rightarrow>
      case select_backend sys opts of Inl e \<Rightarrow> Inl e | Inr choice \<Rightarrow>
      case listen (listen_sys sys (bind_addr opts) (port opts))
             (new_server a (timeouts opts) kDefaultMaxOutbox) of
        (Inl err, _) \<Rightarrow> Inl (1, ''error: listen failed: '' @ err)
      | (Inr _, sv) \<Rightarrow> Inr (opts, choice, sv, l))"

text \<open>The event loop until \<^verbatim>\<open>g_stop\<close> is read as set, then the end of the process: the log is closed
  and the destructor of the server runs.\<close>

definition run_bridge ::
  "'b RadioBackend \<Rightarrow> openssl \<Rightarrow> (u64 \<times> (nat \<Rightarrow> PollEnv)) list \<Rightarrow> u64 \<Rightarrow> XrServer \<times> 'b \<Rightarrow> RfLog \<Rightarrow>
     nat \<times> (XrServer \<times> 'b) \<times> RfLog" where
  "run_bridge B ssl ps now sb l =
     (let sb = run B ssl ps sb; l = close_log l in (0, close_server B now sb, l))"

subsection \<open>What start-up establishes\<close>

lemma start_bridge_InrE:
  assumes "start_bridge sys args = Inr (opts, choice, sv, l)"
  obtains a sv0 where "parse_args args default_options = Inr opts" "check_sockets opts = Inr ()"
    "load_auth sys opts = Inr a" "load_rflog sys opts rflog_init = Inr l"
    "select_backend sys opts = Inr choice"
    "listen (listen_sys sys (bind_addr opts) (port opts)) (new_server a (timeouts opts) kDefaultMaxOutbox)
       = (Inr (), sv)"
  using assms unfolding start_bridge_def by (auto split: sum.splits prod.splits)

lemma load_auth_Inr:
  "load_auth sys opts = Inr a \<Longrightarrow> password_configured a \<longleftrightarrow> password_file opts \<noteq> []"
  by (auto simp: load_auth_def open_auth_def password_configured_def from_password_file_def Let_def
      split: if_splits sum.splits option.splits)

lemma open_log_Inr:
  assumes "open_log path disk l = (Inr u, l')"
  shows "rl_open l'" and "path \<noteq> []" and "hd path = CHR ''/''"
proof -
  have p: "\<not> (path = [] \<or> hd path \<noteq> CHR ''/'')"
    using assms unfolding open_log_def by (metis Inl_Inr_False prod.inject)
  obtain live prev where d: "disk = Inr (live, prev)"
    using assms p unfolding open_log_def by (cases disk) (auto simp del: append.simps)
  show "rl_open l'" using assms p by (auto simp: open_log_def d)
  show "path \<noteq> []" "hd path = CHR ''/''" using p by auto
qed

lemma load_rflog_on:
  assumes "load_rflog sys opts l = Inr l'" and "rflog_on opts"
  shows "rflog_path opts \<noteq> []"
    and "open_log (rflog_path opts) (open_rflog sys (rflog_path opts)) l = (Inr (), l')"
proof -
  show p: "rflog_path opts \<noteq> []" using assms by (cases "rflog_path opts") (simp_all add: load_rflog_def)
  show "open_log (rflog_path opts) (open_rflog sys (rflog_path opts)) l = (Inr (), l')"
    using assms p
    by (cases "fst (open_log (rflog_path opts) (open_rflog sys (rflog_path opts)) l)")
       (simp_all add: load_rflog_def split_beta prod_eq_iff)
qed

lemma load_rflog_Inr:
  assumes "load_rflog sys opts l = Inr l'" and "\<not> rl_open l"
  shows "rl_open l' \<longleftrightarrow> rflog_on opts"
    and "rflog_on opts \<Longrightarrow> rflog_path opts \<noteq> [] \<and> hd (rflog_path opts) = CHR ''/''"
proof -
  show "rl_open l' \<longleftrightarrow> rflog_on opts"
    using assms open_log_Inr(1) [OF load_rflog_on(2) [OF assms(1)]]
    by (cases "rflog_on opts") (simp_all add: load_rflog_def)
  show "rflog_path opts \<noteq> [] \<and> hd (rflog_path opts) = CHR ''/''" if "rflog_on opts"
    using open_log_Inr(2,3) [OF load_rflog_on(2) [OF assms(1) that]] by (rule conjI)
qed

lemma listen_Inr:
  "listen sys sv = (Inr u, sv') \<Longrightarrow> listen_fd sv' \<and> conn sv' = conn sv \<and> srv_auth sv' = srv_auth sv \<and>
     srv_to sv' = srv_to sv \<and> srv_max_outbox sv' = srv_max_outbox sv"
  by (auto simp: listen_def Let_def split: if_splits option.splits)

lemma listen_Inl: "listen sys sv = (Inl e, sv') \<Longrightarrow> sv' = sv"
  by (auto simp: listen_def Let_def split: if_splits option.splits)

lemma select_backend_Inr:
  "select_backend sys opts = Inr choice \<Longrightarrow>
     backend_name opts = (case choice of UseFake \<Rightarrow> ''fake'' | UseLoraham _ \<Rightarrow> ''loraham'') \<and>
     (\<forall>p. choice = UseLoraham p \<longrightarrow>
        p = instance_daemon_paths (is_socket sys) (data_socket opts) (conf_socket opts))"
  by (auto simp: select_backend_def split: if_splits)

text \<open>Exit codes: 2 for what the command line says, 1 for what the system refuses.\<close>

lemma check_sockets_code: "check_sockets opts = Inl e \<Longrightarrow> fst e = 2"
  unfolding check_sockets_def by (elim if_resultE) (auto simp del: append.simps)

lemma load_auth_code: "load_auth sys opts = Inl e \<Longrightarrow> fst e = 1"
  unfolding load_auth_def by (elim if_resultE) (auto split: sum.split_asm simp del: append.simps)

lemma load_rflog_code: "load_rflog sys opts l = Inl e \<Longrightarrow> fst e = 1 \<or> fst e = 2"
  unfolding load_rflog_def
  by (elim if_resultE) (auto split: sum.split_asm prod.split_asm unit.split_asm simp del: append.simps)

lemma select_backend_code: "select_backend sys opts = Inl e \<Longrightarrow> fst e = 2"
  unfolding select_backend_def by (elim if_resultE) (auto simp del: append.simps)

lemma start_bridge_code:
  "start_bridge sys args = Inl e \<Longrightarrow> fst e \<in> {1, 2} \<or> e = (0, [])"
  unfolding start_bridge_def
  by (simp split: sum.split_asm prod.split_asm)
     (auto dest: parse_args_code check_sockets_code load_auth_code load_rflog_code select_backend_code)

subsection \<open>The end of the process\<close>

text \<open>For every backend that keeps its contract: when the loop ends, with a client or without, the
  process leaves a detached backend that owns no transmission for anybody.\<close>

context radio_backend
begin

lemma served_close:
  assumes "served B binv attached tx_open ssl (sv, b)" and "close_server B now (sv, b) = (sv', b')"
  shows "conn sv' = None" "\<not> listen_fd sv'" "binv b'" "\<not> attached b'" "\<not> tx_open b'"
proof -
  have sv': "sv' = sv\<lparr>conn := None, listen_fd := False\<rparr>"
    using assms(2) by (simp add: close_server_def Let_def split_beta split: option.split_asm)
  then show "conn sv' = None" "\<not> listen_fd sv'" by simp_all
  have "binv b' \<and> \<not> attached b' \<and> \<not> tx_open b'"
  proof (cases "conn sv")
    case None
    with assms show ?thesis by (simp add: close_server_def served_def)
  next
    case (Some c)
    then obtain b0 evs where l: "binv b0" "\<not> tx_open b0" "link_run B ssl (srv_auth sv) b0 (c, b) evs"
      using assms(1) by (auto elim: served_SomeE)
    have "binv b" using link_run_sound [OF l(3,1,2)] by (simp add: linked_def)
    with Some assms(2) close_connection_idle [of b now] show ?thesis
      by (auto simp: close_server_def)
  qed
  then show "binv b'" "\<not> attached b'" "\<not> tx_open b'" by simp_all
qed

lemma run_bridge_ends:
  assumes "conn sv = None" "binv b" "\<not> attached b" "\<not> tx_open b"
    and "\<forall>p \<in> set ps. \<forall>t. rand_ok (env_rand (snd p t))"
    and "run_bridge B ssl ps now (sv, b) l = (code, (sv', b'), l')"
  shows "code = 0 \<and> conn sv' = None \<and> \<not> listen_fd sv' \<and> binv b' \<and> \<not> attached b' \<and> \<not> tx_open b' \<and>
     \<not> rl_open l'"
proof -
  have "served B binv attached tx_open ssl (run B ssl ps (sv, b))"
    by (rule served_run [OF served_NoneI assms(5)]) (use assms in auto)
  then show ?thesis
    using assms(6) served_close [of ssl "fst (run B ssl ps (sv, b))" "snd (run B ssl ps (sv, b))" now sv' b']
    by (auto simp: run_bridge_def close_log_def Let_def)
qed

end

end
