(* ===== verification/Host_Properties.thy ===== *)
theory Host_Properties
  imports Bridge_Main
begin

text \<open>
  Properties of the process around the server: the lines and the retention of the RF log, the
  command line, and what start-up establishes before the event loop runs.
\<close>

subsection \<open>The RF log\<close>

definition utc_ok :: "string \<Rightarrow> bool" where
  "utc_ok utc \<longleftrightarrow> length utc \<le> 39 \<and> CHR 0x00 \<notin> set utc \<and> CHR 0x0A \<notin> set utc"

definition log_of :: "RfSys \<Rightarrow> string \<Rightarrow> RfLog \<Rightarrow> RfLog \<Rightarrow> bool" where
  "log_of sys line l l' \<longleftrightarrow> (\<exists>w. prefix w line \<and>
     rl_live l' = (if rolls sys (length line) l then [] else rl_live l) @ w \<and>
     (live_writes sys = [] \<longrightarrow> w = line) \<and>
     (rolls sys (length line) l \<longrightarrow> rl_prev l' = Some (rl_live l)) \<and>
     rl_open l' = rl_open l \<and> rl_max_bytes l' = rl_max_bytes l)"

lemma write_line_log_of: "log_of sys line l (write_line sys line l)"
proof -
  let ?l = "roll sys (length line) l"
  obtain ok sc live where w: "write_all (live_writes sys) (rl_live ?l) line = (ok, sc, live)"
    by (cases "write_all (live_writes sys) (rl_live ?l) line")
  obtain a b where ab: "line = a @ b" "live = rl_live ?l @ a" "ok \<longrightarrow> b = []"
    using write_all_prefix [OF w] by blast
  have "live_writes sys = [] \<longrightarrow> ok" using w by (cases line) auto
  with ab have "live_writes sys = [] \<longrightarrow> a = line" "prefix a line" by auto
  moreover have "write_line sys line l = ?l\<lparr>rl_live := live\<rparr>" by (simp add: write_line_def w)
  ultimately show ?thesis
    using roll_live [of sys "length line" l] roll_prev [of sys "length line" l] roll_frame [of sys "length line" l] ab(2)
    unfolding log_of_def by (intro exI [of _ a]) simp
qed

lemma format_fits:
  assumes "length stack = 1024" and "CHR 0x00 \<notin> set head" and "CHR 0x0A \<notin> set head"
    and "length (record_text head rf) < 1024" and "format_line (Some stack) 1024 head rf = Some (buf, n)"
  shows "take n buf = record_text head rf"
proof -
  have nul: "CHR 0x00 \<notin> set (record_text head rf)" using record_text_line assms(2,3) by blast
  have "c_str buf = record_text head rf" "n = length (record_text head rf)"
    using format_line_text [OF assms(1) _ nul assms(5)] assms(4) by (auto simp: clip_line_def)
  then show ?thesis by (metis c_str_def takeWhile_eq_take)
qed

lemma format_line_defined: "8 \<le> cap \<Longrightarrow> \<exists>buf n. format_line (Some out) cap head rf = Some (buf, n)"
  by (simp add: format_line_def Let_def split_beta)

lemma record_text_inject: "record_text head rf = record_text head rf' \<longleftrightarrow> rf = rf'"
proof
  assume eq: "record_text head rf = record_text head rf'"
  from arg_cong [OF this, of length] have "length rf = length rf'" by (simp add: length_record_text)
  then have "length (hex_text rf) = length (hex_text rf')" by simp
  with eq have "hex_text rf = hex_text rf'" by (simp add: record_text_def)
  then show "rf = rf'" by (simp add: hex_text_inject)
qed simp


definition demo_log :: RfLog where
  "demo_log = \<lparr>rl_open = True, rl_path = ''/log'', rl_max_bytes = kMaxBytes, rl_live = [], rl_prev = None\<rparr>"

definition working_sys :: RfSys where
  "working_sys = \<lparr>fstat_ok = True, prev_open_ok = True, preads = [], prev_writes = [],
     ftruncate_ok = True, live_writes = []\<rparr>"


lemma copy_loop_works: "copy_loop [] [] live off prev = (True, prev @ drop off live)"
proof (induction "length live - off" arbitrary: off prev rule: less_induct)
  case less
  let ?chunk = "take 65536 (drop off live)"
  have w: "write_all [] prev ?chunk = (True, [], prev @ ?chunk)" by (cases ?chunk) auto
  show ?case
  proof (cases "?chunk = []")
    case True
    then show ?thesis by (subst copy_loop.simps) simp
  next
    case False
    have "copy_loop [] [] live (off + length ?chunk) (prev @ ?chunk) =
       (True, (prev @ ?chunk) @ drop (off + length ?chunk) live)"
      using False by (intro less) auto
    moreover have "?chunk @ drop (off + length ?chunk) live = drop off live"
      using take_drop_length [of 65536 "drop off live"] by (simp add: add.commute)
    ultimately show ?thesis using False by (subst copy_loop.simps) (simp add: w)
  qed
qed

lemma write_line_works:
  "write_line working_sys line l =
     (if length (rl_live l) + length line > rl_max_bytes l
      then l\<lparr>rl_prev := Some (rl_live l), rl_live := line\<rparr>
      else l\<lparr>rl_live := rl_live l @ line\<rparr>)"
proof -
  have w: "write_all [] f line = (True, [], f @ line)" for f by (cases line) auto
  show ?thesis
    by (simp add: write_line_def roll_def copy_to_previous_def copy_loop_works working_sys_def w)
qed

text \<open>The state after writing the records \<open>lines\<close> to an empty log.\<close>

definition keeps_last :: "nat \<Rightarrow> string list \<Rightarrow> RfLog \<Rightarrow> bool" where
  "keeps_last cap lines l \<longleftrightarrow> rl_max_bytes l = cap \<and> length (rl_live l) \<le> cap \<and>
     (\<exists>old ps cur. lines = old @ ps @ cur \<and> rl_live l = concat cur \<and>
        (rl_prev l = None \<and> old = [] \<and> ps = [] \<or> rl_prev l = Some (concat ps) \<and> length (concat ps) \<le> cap))"

lemma keeps_last_step:
  assumes "keeps_last cap lines l" and "length line \<le> cap"
  shows "keeps_last cap (lines @ [line]) (write_line working_sys line l)"
proof -
  from assms(1) obtain old ps cur where l: "rl_max_bytes l = cap" "length (rl_live l) \<le> cap"
      "lines = old @ ps @ cur" "rl_live l = concat cur"
    and p: "rl_prev l = None \<and> old = [] \<and> ps = [] \<or> rl_prev l = Some (concat ps) \<and> length (concat ps) \<le> cap"
    by (auto simp: keeps_last_def)
  show ?thesis
  proof (cases "length (rl_live l) + length line > cap")
    case True
    with l assms(2) show ?thesis
      unfolding keeps_last_def write_line_works
      by (intro conjI exI [of _ "old @ ps"] exI [of _ cur] exI [of _ "[line]"]) auto
  next
    case False
    with l p show ?thesis
      unfolding keeps_last_def write_line_works
      by (intro conjI exI [of _ old] exI [of _ ps] exI [of _ "cur @ [line]"]) auto
  qed
qed

text \<open>
  C37.  Retention.  Whatever the system calls answer, the bytes of the live file are still
  there after a record: in the live file, or all of them in the previous segment.  While the
  calls succeed and no record exceeds the cap, the live file never exceeds it, and the two files
  hold the latest records, each file a consecutive run of whole ones.
\<close>

theorem rflog_retention:
  assumes "rl_live l0 = []" and "rl_prev l0 = None" and "\<forall>line \<in> set lines. length line \<le> rl_max_bytes l0"
  shows "(prefix (rl_live l) (rl_live (write_line sys line l)) \<or>
      rl_prev (write_line sys line l) = Some (rl_live l)) \<and>
    keeps_last (rl_max_bytes l0) lines (fold (write_line working_sys) lines l0)"
proof
  show "prefix (rl_live l) (rl_live (write_line sys line l)) \<or> rl_prev (write_line sys line l) = Some (rl_live l)"
    using write_line_log_of [of sys line l] by (auto simp: log_of_def)
  show "keeps_last (rl_max_bytes l0) lines (fold (write_line working_sys) lines l0)"
    using assms(3)
  proof (induction lines rule: rev_induct)
    case Nil
    then show ?case using assms(1,2) by (simp add: keeps_last_def)
  next
    case (snoc line lines)
    then show ?case by (simp add: keeps_last_step)
  qed
qed

theorem rflog_retention_witness:
  "keeps_last 4 [''abc'', ''de'', ''f''] (fold (write_line working_sys) [''abc'', ''de'', ''f''] (set_max_bytes 4 demo_log))"
  using rflog_retention [of "set_max_bytes 4 demo_log" "[''abc'', ''de'', ''f'']"]
  by (simp add: demo_log_def set_max_bytes_def)

text \<open>
  A copy that fails at once has already emptied the previous segment: the records it held
  are lost, although the live file is untouched.
\<close>

lemma failed_copy_empties_previous:
  assumes "fstat_ok sys" "prev_open_ok sys" "preads sys = []" "prev_writes sys = [SendErr EOTHER]"
    and "rl_live l \<noteq> []" and "length (rl_live l) + length line > rl_max_bytes l"
  shows "rl_prev (write_line sys line l) = Some [] \<and> prefix (rl_live l) (rl_live (write_line sys line l))"
proof -
  obtain c cs where live: "take 65536 (rl_live l) = c # cs" using assms(5) by (cases "rl_live l") auto
  have c: "copy_to_previous sys l = (False, l\<lparr>rl_prev := Some []\<rparr>)"
    using assms(2-5) by (simp add: copy_to_previous_def) (subst copy_loop.simps, simp add: live)
  then have "\<not> rolls sys (length line) l" by (simp add: rolls_def)
  then have "prefix (rl_live l) (rl_live (write_line sys line l))"
    using write_line_log_of [of sys line l] by (auto simp: log_of_def)
  moreover have "rl_prev (write_line sys line l) = Some []"
    using assms(1,6) c by (simp add: write_line_def roll_def split_beta)
  ultimately show ?thesis by simp
qed

subsection \<open>The command line\<close>

text \<open>A system on which every call succeeds, but for the given files.\<close>

definition accepting_sys :: "(string \<Rightarrow> password_file option) \<Rightarrow> BootSys" where
  "accepting_sys files = \<lparr>read_file = files, open_rflog = (\<lambda>_. Inr ([], None)), is_socket = (\<lambda>_. True),
     listen_sys = (\<lambda>_ p. \<lparr>socket_ok = True, inet_pton_ok = True, bind_ok = True, listen_ok = True,
       fcntl_ok = (True, True), sockname = Some p\<rparr>)\<rparr>"

text \<open>
  C38.  The command line reaches exactly the well-formed settings: whatever is accepted has
  usable socket paths and keepalive times of one millisecond to one hour with all other times
  at their defaults, and every such setting is reached, by the command line that spells it out.
\<close>

theorem command_line_exact:
  "((\<exists>args. parse_args args default_options = Inr opts) \<longleftrightarrow> options_ok opts) \<and>
   (parse_args (render opts) default_options = Inr opts \<longleftrightarrow> options_ok opts)"
  using parse_args_ok [OF _ options_ok_default] parse_args_render by blast

text \<open>
  The numeric options take what \<^verbatim>\<open>strtoul\<close> takes: leading blanks, a plus sign, and a negative
  number that wraps around to one in range.
\<close>

lemma numbers_not_strict:
  "parse_ms '' +5'' = Some 5" "parse_ms ''-18446744073709551615'' = Some 1"
  "parse_port ''-18446744073709551615'' = Some 1"
  by (simp_all add: parse_ms_def parse_port_def strtoul_def is_space_def is_digit_def read_nat_def)

text \<open>An empty name of a password file is no password file: the bridge starts in open mode.\<close>

lemma empty_password_file_is_open:
  "\<exists>opts choice sv l. start_bridge (accepting_sys (\<lambda>_. None)) [''--password-file'', []] = Inr (opts, choice, sv, l) \<and>
     srv_auth sv = open_auth"
  by (simp add: start_bridge_def parse_strings parse_args.simps(1) accepting_sys_def default_options_def
      check_sockets_def load_auth_def load_rflog_def select_backend_def listen_def set_nonblocking_def new_server_def)

subsection \<open>Start-up\<close>

lemma default_start:
  "\<exists>sv l. start_bridge (accepting_sys files) [] = Inr (default_options, UseFake, sv, l)"
  by (simp add: start_bridge_def accepting_sys_def default_options_def check_sockets_def load_auth_def
      load_rflog_def select_backend_def listen_def set_nonblocking_def)





end
