(* ===== verification/Spec2Isabelle.thy ===== *)
theory Spec2Isabelle
  imports Xr_End_To_End Session_Properties Backend_Properties Host_Properties
begin

text \<open>
  Verification of \<^emph>\<open>meshcom-loraham-bridge\<close>, a process that lends a LoRa radio, driven by the LoRaHAM
  daemon of the same host, to one MeshCom firmware at a time.

  \<^bold>\<open>The program.\<close>  The firmware connects over TCP and speaks the XR protocol: HELLO, optionally a
  challenge and its HMAC answer, CONFIGURE, then TX requests and results, received packets and
  keepalives.  \<^verbatim>\<open>XrServer\<close> (\<^verbatim>\<open>src/src/xr/xr_server.cpp\<close>) runs the event loop and owns at most one
  \<^verbatim>\<open>XrConnection\<close>, the socket, which owns an \<^verbatim>\<open>XrSession\<close>, the protocol.  The session drives a
  \<^verbatim>\<open>RadioBackend\<close>: \<^verbatim>\<open>FakeBackend\<close>, in memory, or \<^verbatim>\<open>LorahamBackend\<close>, which talks to the daemon over
  two Unix sockets, CONF (text lines) and DATA (binary frames), through \<^verbatim>\<open>PosixDaemonTransport\<close>.
  \<^verbatim>\<open>main.cpp\<close> reads the command line and the password file, opens the RF log, builds the parts and
  runs the loop until a signal.

  \<^bold>\<open>The theories and the code they model.\<close>
  \<^item> \<open>Bridge_Prelude\<close>: machine integers as words, big- and little-endian bytes, C strings, decimal printing
    and reading.  \<open>Posix_Socket\<close>: a stream socket with the scripts of what \<^verbatim>\<open>recv\<close> and \<^verbatim>\<open>send\<close> will
    answer, and what has been taken from and written to it.
  \<^item> \<open>Stream_Parser\<close>: the interface of an incremental frame parser (locale \<open>frame_parser\<close>) and of a
    loop that feeds one (locale \<open>parser_loop\<close>); \<open>Bounded_Buffer\<close>: \<^verbatim>\<open>util/bounded_buffer.h\<close>, an instance of
    the locale \<open>byte_queue\<close>.
  \<^item> \<open>Xr_Protocol\<close> and \<open>Xr_Client_Session\<close>: \<^verbatim>\<open>third_party/external_radio_protocol\<close>, the codec with its
    parser, and the state machine of the firmware.
  \<^item> \<open>Hmac_Auth\<close>: \<^verbatim>\<open>auth/hmac_auth.cpp\<close>.  \<open>Radio_Backend\<close>: \<^verbatim>\<open>backend/radio_backend.h\<close>, the virtual class
    as a record of functions and its contract as the locale \<open>radio_backend\<close>.
  \<^item> \<open>Xr_Session\<close>, \<open>Xr_Connection\<close>, \<open>Xr_Server\<close>: the files of the same names under \<^verbatim>\<open>src/src/xr\<close>, one definition
    per member function, the object as a record that is passed and returned.
    \<open>Xr_Session_Lemmas\<close> has the invariant \<open>sess_inv\<close> and its preservation.
  \<^item> \<open>Xr_Server_Spec\<close>: the specification, an abstract labelled machine \<open>server_step\<close> whose state is only what
    the protocol needs.  \<open>Xr_Session_Refine\<close>: each handler of the session refines a step.  \<open>Xr_Link\<close>: so
    does a whole connection with any backend that keeps the contract.
  \<^item> \<open>Fake_Backend\<close>: \<^verbatim>\<open>backend/fake_backend.cpp\<close>, with the interpretation \<open>fake\<close> of the contract.
  \<^item> \<open>Loraham_Framing\<close>, \<open>Loraham_Config\<close>, \<open>Loraham_Transport\<close>, \<open>Loraham_Backend\<close>: the files under
    \<^verbatim>\<open>src/src/backend/loraham\<close>.  \<open>Loraham_Lemmas\<close> has the invariant \<open>lora_inv\<close>, \<open>Loraham_Contract\<close> the
    interpretation \<open>lora\<close> of the contract.
  \<^item> \<open>Rf_Log\<close>: \<^verbatim>\<open>util/rflog.cpp\<close>.  \<open>Bridge_Options\<close> and \<open>Bridge_Main\<close>: \<^verbatim>\<open>main.cpp\<close>, the command line and the
    order of start-up, loop and exit.
  \<^item> \<open>Xr_End_To_End\<close>: the firmware session and the abstract server joined by two channels.
  \<^item> \<open>Session_Properties\<close>, \<open>Wire_Properties\<close>, \<open>Backend_Properties\<close>, \<open>Host_Properties\<close> and this theory:
    the properties, the last those of whole runs.

  \<^bold>\<open>What is shown.\<close>
  \<^item> Whole runs (C1 to C8): for every behaviour of kernel, clock, daemon and random generator the bytes exchanged with
    the client are a run of the abstract server, with either backend; results answer requests in order; nothing
    operational precedes a confirmed configuration, nor that an authentication; session and backend
    agree on what is in flight; firmware and bridge never meet in incompatible states; a
    handshake completes; shutdown leaves nothing open.
  \<^item> Session and server (C9 to C18): the invariant, independence of the cutting of the stream,
    deadlines, uncertain transmissions, the single client slot, output.
  \<^item> Wire (C19 to C28 but C22): codecs in both directions, what validation guarantees, the SET command, the buffer
    as a queue, authentication and the password file.
  \<^item> LoRaHAM backend (C22, C29 to C35): what the daemon sees on both sockets, how its answers decide a
    configuration, one report per transmission and per configuration, draining, faults, received packets, tokens.
  \<^item> Host (C36 to C40): the RF log line by line and its retention, the command line, start-up.

  \<^bold>\<open>Choices.\<close>  An object is a record and a member function returns it updated; a reference to
  another object is an argument that is returned as well.  \<^verbatim>\<open>size_t\<close> is \<open>nat\<close>; all protocol fields and all times
  are words and wrap.  Loops are total functions: each consumes bytes or script items, so there is no fuel.  Every
  clock reading of a pass is a separate argument, not assumed to increase.  A pass of the event loop is given the
  answers of \<^verbatim>\<open>poll\<close>, \<^verbatim>\<open>accept\<close>, \<^verbatim>\<open>recv\<close>, \<^verbatim>\<open>send\<close> and \<^verbatim>\<open>RAND_bytes\<close> as data; a script that is used up answers
  \<^verbatim>\<open>EAGAIN\<close>.  The events a backend delivers during one poll are returned as a list and then handled in order,
  where the code calls back at once.  OpenSSL is a parameter; the only
  assumption is that \<^verbatim>\<open>RAND_bytes\<close>, if it succeeds, fills its buffer (\<open>rand_ok\<close>).  A new socket of the daemon has
  carried nothing (\<open>fresh_item\<close>).  RSSI and SNR as floating point numbers are exact rationals.

  \<^bold>\<open>Not modelled.\<close>  The diagnostic log (\<^verbatim>\<open>util/log.cpp\<close>, output only; the server's connect and
  disconnect lines are kept), the text of \<^verbatim>\<open>usage\<close>, the clock (\<^verbatim>\<open>util/clock.h\<close>) and \<^verbatim>\<open>utc_now\<close>, whose readings are
  arguments, signals (the list of passes ends where \<^verbatim>\<open>g_stop\<close> is read as set), file descriptors as
  numbers, and C++ copying, allocation failure and exceptions.  The RF records of the backend are the list \<open>lb_rflog\<close>;
  writing each of them to the file is \<open>log_rx\<close> and \<open>log_tx\<close> of \<open>Rf_Log\<close>.
\<close>

section \<open>Whole runs of the bridge\<close>

text \<open>The server with the LoRaHAM backend, from its construction through any number of passes.\<close>

lemma lora_client:
  assumes "\<forall>i \<in> set cs. fresh_item i" and "\<forall>p \<in> set ps. \<forall>t. rand_ok (env_rand (snd p t))"
    and "run lora_vtable ssl ps (new_server a t m, new_loraham (new_transport dp cs rs) cto dto) = (sv, b)"
    and "conn sv = Some c"
  obtains ios rest where
    "server_run (password_configured a) (sess_verify ssl a) SHello ios (abs_sess (session c))"
    "rx_taken (conn_sock c) = bytes_in ios @ rest"
    "bytes_out ios = tx_written (conn_sock c) @ bb_data (outbox (session c))"
    "sess_inv (session c)" "linked lora_inv lb_sink tx_open_lora (session c, b)"
proof (rule lora.run_client [OF _ _ _ _ assms(2-4)])
  show "conn (new_server a t m) = None" by (simp add: new_server_def)
  show "lora_inv (new_loraham (new_transport dp cs rs) cto dto)" using assms(1) by (rule lora_inv_new)
  show "\<not> lb_sink (new_loraham (new_transport dp cs rs) cto dto)"
    "\<not> tx_open_lora (new_loraham (new_transport dp cs rs) cto dto)"
    by (simp_all add: new_loraham_def tx_open_lora_def)
qed (use that in \<open>simp add: new_server_def\<close>)


text \<open>A pass in which a client connects.\<close>

definition demo_passes :: "(u64 \<times> (nat \<Rightarrow> PollEnv)) list" where
  "demo_passes = [(0, \<lambda>_. demo_env [] [Accepted (True, True)])]"

definition demo_bridge :: "AuthConfig \<Rightarrow> XrServer \<times> LorahamBackend" where
  "demo_bridge a = run lora_vtable demo_ssl demo_passes (new_server a default_timeouts 65536, demo_lora)"

lemma demo_passes_rand: "\<forall>p \<in> set demo_passes. \<forall>t. rand_ok (env_rand (snd p t))"
  by (simp add: demo_passes_def demo_env_def rand_ok_def)

definition demo_client :: "AuthConfig \<Rightarrow> XrConnection" where
  "demo_client a = fst (open_connection lora_vtable 1 a default_timeouts 65536
     \<lparr>rx_script = [], tx_script = [], rx_taken = [], tx_written = []\<rparr> demo_lora)"

lemma demo_client_facts:
  "phase (session (demo_client a)) = WaitHello" "out_size (session (demo_client a)) = 0"
  "socket_error (demo_client a) = False" "tx_written (conn_sock (demo_client a)) = []"
  "rx_taken (conn_sock (demo_client a)) = []" "bb_data (outbox (session (demo_client a))) = []"
  "tick B 1 (session (demo_client a), b) = (session (demo_client a), b)"
  by (simp_all add: demo_client_def open_connection_def open_session_def arm_def new_session_def out_size_def
      bb_defs tick_def default_timeouts_def word_le_nat_alt Let_def split_beta)

lemma demo_bridge_eq:
  "\<exists>sv b. demo_bridge a = (sv, b) \<and> conn sv = Some (demo_client a) \<and> \<not> tx_open_lora b"
proof -
  let ?sv = "new_server a default_timeouts 65536" and ?e = "demo_env [] [Accepted (True, True)]"
  let ?b = "snd (open_connection lora_vtable 1 a default_timeouts 65536
     \<lparr>rx_script = [], tx_script = [], rx_taken = [], tx_written = []\<rparr> demo_lora)"
  let ?sv' = "?sv\<lparr>conn := Some (demo_client a), srv_log := [''XR client connected'']\<rparr>"
  have b: "lb_state ?b = Disconnected" "lb_out ?b = []"
    by (simp_all add: open_connection_def open_session_def demo_lora_def new_loraham_def set_sink_lora_def
        start_lora_def Let_def split_beta)
  have acc: "try_accept lora_vtable ?e [Accepted (True, True)] (?sv, demo_lora) = (?sv', ?b)"
    by (simp add: demo_env_def new_server_def set_nonblocking_def demo_client_def split_beta Let_def)
  have poll: "poll_lora 1 ?b = ([], ?b)" using b by (simp add: poll_lora_def poll_step_def Let_def)
  have flush: "flush (demo_client a) = demo_client a"
    using demo_client_facts(2) [of a] by (subst flush.simps) simp
  have pump: "pump_conn lora_vtable ?e (demo_client a, ?b) = (demo_client a, ?b)"
    by (simp add: pump_conn_def pump_backend_def tick_connection_def service_write_def demo_env_def poll
        demo_client_facts flush)
  have "demo_bridge a = drop_connection_if_finished lora_vtable 1 (?sv', ?b)"
    using acc pump
    by (simp add: demo_bridge_def demo_passes_def poll_once_def Let_def demo_env_def new_server_def)
  then have "demo_bridge a = (?sv', ?b)"
    by (simp add: drop_connection_if_finished_def finished_def demo_client_facts)
  then show ?thesis using b(1) by (simp add: tx_open_lora_def)
qed








text \<open>
  C5.  With the in-memory backend every life of a connection, however its reads, writes, polls
  and clock ticks interleave, is a run of the same abstract server, whose events are those the
  backend delivered.
\<close>

theorem fake_connection_refines_server:
  assumes "link_run fake_vtable ssl a b0 (c, b) evs" and "fake_inv b0" and "\<not> fk_tx_pending b0"
  shows "\<exists>ios rest.
     server_run (password_configured a) (sess_verify ssl a) SHello ios (abs_sess (session c)) \<and>
     rx_taken (conn_sock c) = bytes_in ios @ rest \<and> events_in ios = evs \<and>
     bytes_out ios = tx_written (conn_sock c) @ bb_data (outbox (session c))"
  using fake.link_run_sound [OF assms] by (auto simp: conn_trace_def session_trace_def)

definition demo_socket :: "RecvItem list \<Rightarrow> SendItem list \<Rightarrow> Socket" where
  "demo_socket rx tx = \<lparr>rx_script = rx, tx_script = tx, rx_taken = [], tx_written = []\<rparr>"

theorem fake_connection_refines_server_witness:
  "\<exists>ios rest. server_run False (sess_verify demo_ssl open_auth) SHello ios
       (abs_sess (session (fst (open_connection fake_vtable 0 open_auth default_timeouts 65536
          (demo_socket [] []) fake_init)))) \<and>
     bytes_in ios @ rest = []"
  using fake_connection_refines_server [of demo_ssl open_auth fake_init
      "fst (open_connection fake_vtable 0 open_auth default_timeouts 65536 (demo_socket [] []) fake_init)"
      "snd (open_connection fake_vtable 0 open_auth default_timeouts 65536 (demo_socket [] []) fake_init)"
      "[]"]
    link_run.opened [of "demo_socket [] []" fake_vtable demo_ssl open_auth fake_init 0
      default_timeouts 65536]
  by (auto simp: demo_socket_def fake_inv_def fake_init_def password_configured_def open_auth_def
      open_connection_def Let_def split_beta)

section \<open>Firmware and bridge\<close>

text \<open>Frames on their way to a firmware session that waits for a result bring that result or
  leave it waiting.\<close>

lemma takes_all_pending:
  "takes_all cfg k fs k' \<Longrightarrow> k = KReady t \<Longrightarrow>
     k' = KReady t \<or> (\<exists>q. t = Some q \<and> k' = KReady None \<and> q \<in> set (results fs))"
proof (induction arbitrary: t rule: takes_all.induct)
  case (cons k f k1 fs k2)
  from cons.hyps(1) show ?case
    using cons.IH [of t] cons.IH [of None] cons.prems
    by cases (auto simp: results_def server_frame_defs)
qed simp


definition demo_firmware :: Session where
  "demo_firmware = snd (onConnected (snd (onConnecting (snd (setDesiredConfig demo_config (reset undefined))))))"


subsection \<open>A handshake\<close>

lemma emit_room:
  assumes "bb_invar (outbox s)" and "length pl \<le> 300" and "len = of_nat (length pl)"
    and "length (bb_data (outbox s)) + length pl + 8 \<le> bb_cap (outbox s)"
  obtains ob where "emit ty seq (Some pl) len s = (True, s\<lparr>outbox := ob\<rparr>)" "bb_invar ob"
    "bb_data ob = bb_data (outbox s) @ frame_bytes (mk_frame ty seq pl)" "bb_cap ob = bb_cap (outbox s)"
proof -
  let ?bs = "frame_bytes (mk_frame ty seq pl)" and ?ob = "snd (bb_append (outbox s) (frame_bytes (mk_frame ty seq pl)))"
  have "length (bb_data (outbox s)) + length ?bs \<le> bb_cap (outbox s)" using assms(4) by (simp add: length_frame_bytes)
  from bb.append_fits [OF assms(1) this] have "fst (bb_append (outbox s) ?bs)" "bb_data ?ob = bb_data (outbox s) @ ?bs"
    by auto
  moreover from this encode_mk_frame [OF assms(2,3), of ty seq] have "emit ty seq (Some pl) len s = (True, s\<lparr>outbox := ?ob\<rparr>)"
    by (simp add: emit_def Let_def split_beta)
  ultimately show thesis
    using assms(1) by (intro that [of ?ob]) (simp_all add: bb.invar_append bb.capacity_append)
qed

lemma hello_step:
  assumes "phase s = WaitHello" and "\<not> password_configured (auth s)" and "bb_invar (outbox s)"
    and "length (bb_data (outbox s)) + 18 \<le> bb_cap (outbox s)"
  obtains ob where "handle_frame B ssl now (mk_frame MSG_HELLO 0 [kVersion]) (s, b) =
      (arm now (config_ms (to s)) ConfigTimeout (s\<lparr>outbox := ob, phase := WaitConfigure\<rparr>), b)" "bb_invar ob"
    "bb_data ob = bb_data (outbox s) @ frame_bytes hello_ack @ frame_bytes (auth_result AUTH_OK)"
    "bb_cap ob = bb_cap (outbox s)"
proof -
  obtain ob where o: "emit MSG_HELLO_ACK 0 (Some [kVersion]) 1 s = (True, s\<lparr>outbox := ob\<rparr>)" "bb_invar ob"
      "bb_data ob = bb_data (outbox s) @ frame_bytes (mk_frame MSG_HELLO_ACK 0 [kVersion])" "bb_cap ob = bb_cap (outbox s)"
    by (rule emit_room [OF assms(3), of "[kVersion]"]) (use assms(4) in simp_all)
  obtain ob' where o': "emit MSG_AUTH_RESULT 0 (Some [AUTH_OK]) 1 (s\<lparr>outbox := ob\<rparr>) = (True, s\<lparr>outbox := ob'\<rparr>)" "bb_invar ob'"
      "bb_data ob' = bb_data ob @ frame_bytes (mk_frame MSG_AUTH_RESULT 0 [AUTH_OK])" "bb_cap ob' = bb_cap ob"
    by (rule emit_room [of "s\<lparr>outbox := ob\<rparr>" "[AUTH_OK]"]) (use assms(4) o in \<open>simp_all add: length_frame_bytes\<close>)
  have "validate (mk_frame MSG_HELLO 0 [kVersion]) = ERR_NONE" by (simp add: validate_def isKnownType_def)
  with o o' assms(1,2) have "handle_frame B ssl now (mk_frame MSG_HELLO 0 [kVersion]) (s, b) =
      (arm now (config_ms (to s)) ConfigTimeout (s\<lparr>outbox := ob', phase := WaitConfigure\<rparr>), b)"
    by (simp add: handle_frame_def handle_hello_def is_client_message_def)
  with o o' show thesis by (intro that [of ob']) (simp_all add: hello_ack_def auth_result_def)
qed

lemma configure_step:
  assumes "phase s = WaitConfigure" and "radioConfigValid cfg" and "fk_next_token b + 1 \<noteq> 0"
  shows "handle_frame fake_vtable ssl now (mk_frame MSG_CONFIGURE 0 (packConfig cfg)) (s, b) =
     (arm now (config_ms (to s)) ConfigTimeout
        (s\<lparr>config_op_token := fk_next_token b + 1, requested_cfg := cfg, phase := Configuring\<rparr>),
      b\<lparr>fk_config_pending := True, fk_pending_requested := cfg, fk_next_token := fk_next_token b + 1,
        fk_config_token := fk_next_token b + 1\<rparr>)"
proof -
  let ?f = "mk_frame MSG_CONFIGURE 0 (packConfig cfg)"
  have d: "decodeConfig ?f = Some cfg"
    using unpack_packConfig [of cfg "[]"] assms(2) by (simp add: decodeConfig_def)
  have "validate ?f = ERR_NONE"
    using assms(2) by (simp add: validate_def isKnownType_def packConfig_def put32_def put16_def radioConfigValid_def)
  then show ?thesis
    using assms d by (simp add: handle_frame_def handle_configure_def is_client_message_def fake_vtable_def
        fake_begin_configure_def Let_def)
qed

lemma configured_step:
  assumes "phase s = Configuring" and "radioConfigValid cfg" and "requested_cfg s = cfg" and "config_op_token s = tok"
    and "bb_invar (outbox s)" and "length (bb_data (outbox s)) + 26 \<le> bb_cap (outbox s)"
  shows "\<exists>ob. on_configure_complete now tok \<lparr>applied = True, effective = cfg\<rparr> s =
      enter_ready now (s\<lparr>applied_cfg := cfg, outbox := ob\<rparr>) \<and> bb_data ob = bb_data (outbox s) @ frame_bytes (config_ok cfg)"
proof -
  obtain ob where o: "emit MSG_CONFIG_RESULT 0 (Some (CFG_OK # packConfig cfg)) 18 (s\<lparr>applied_cfg := cfg\<rparr>) =
      (True, s\<lparr>applied_cfg := cfg, outbox := ob\<rparr>)"
      "bb_data ob = bb_data (outbox s) @ frame_bytes (mk_frame MSG_CONFIG_RESULT 0 (CFG_OK # packConfig cfg))"
    by (rule emit_room [of "s\<lparr>applied_cfg := cfg\<rparr>" "CFG_OK # packConfig cfg" 18]) (use assms(5,6) in simp_all)
  then show ?thesis
    using assms(1-4) by (intro exI [of _ ob]) (simp add: on_configure_complete_def pack_config_packConfig config_ok_def)
qed

lemma firmware_takes_all:
  assumes "takes_all cfg k fs k'" and "client_ok cfg s" and "cview s = k"
  shows "client_ok cfg (fold (\<lambda>f s. snd (onFrame f s)) fs s) \<and> cview (fold (\<lambda>f s. snd (onFrame f s)) fs s) = k'"
  using assms
proof (induction arbitrary: s rule: takes_all.induct)
  case (cons k f k1 fs k2)
  have "client_ok cfg (snd (onFrame f s)) \<and> cview (snd (onFrame f s)) = k1"
    using client_takes [of cfg s f k1 "fst (onFrame f s)" "snd (onFrame f s)"] cons by simp
  with cons.IH [of "snd (onFrame f s)"] show ?case by simp
qed simp

text \<open>The bytes a firmware without a password sends, and the frames it is to be answered with.\<close>

definition client_hello :: "RadioConfig \<Rightarrow> Frame list" where
  "client_hello cfg = [mk_frame MSG_HELLO 0 [kVersion], mk_frame MSG_CONFIGURE 0 (packConfig cfg)]"

definition bridge_answer :: "RadioConfig \<Rightarrow> Frame list" where
  "bridge_answer cfg = [hello_ack, auth_result AUTH_OK, config_ok cfg]"

lemma handshake_fed:
  assumes "radioConfigValid cfg" and "64 \<le> m"
    and "open_session fake_vtable now (new_session open_auth t m, fake_set_sink True fake_init) = (s0, b0)"
    and "concat chunks = concat (map frame_bytes (client_hello cfg))"
    and "fold (feed fake_vtable ssl now) chunks (s0, b0) = (s1, b1)"
  shows "phase s1 = Configuring" "requested_cfg s1 = cfg" "config_op_token s1 = 1" "bb_invar (outbox s1)"
    "bb_data (outbox s1) = frame_bytes hello_ack @ frame_bytes (auth_result AUTH_OK)" "bb_cap (outbox s1) = m"
    "b1 = (fake_start (fake_set_sink True fake_init))\<lparr>fk_config_pending := True, fk_pending_requested := cfg,
       fk_next_token := 1, fk_config_token := 1\<rparr>"
proof -
  have s0: "phase s0 = WaitHello" "auth s0 = open_auth" "bb_invar (outbox s0)" "bb_data (outbox s0) = []"
      "bb_cap (outbox s0) = m" "parser_held (parser s0) = []"
    and b0: "b0 = fake_start (fake_set_sink True fake_init)"
    using assms(3) by (auto simp: open_session_def arm_def new_session_def fake_vtable_def bb_defs Let_def)
  have inv: "sess_inv s0"
    using sess_inv_open [of "new_session open_auth t m" fake_vtable now "fake_set_sink True fake_init"] assms(3)
    by (simp add: new_session_def bb_invar_init)
  let ?s = "\<lambda>ob. arm now (config_ms (to s0)) ConfigTimeout (s0\<lparr>outbox := ob, phase := WaitConfigure\<rparr>)"
  obtain ob where h: "handle_frame fake_vtable ssl now (mk_frame MSG_HELLO 0 [kVersion]) (s0, b0) = (?s ob, b0)"
      and ob: "bb_invar ob" "bb_data ob = frame_bytes hello_ack @ frame_bytes (auth_result AUTH_OK)" "bb_cap ob = m"
    by (rule hello_step [of s0 fake_vtable ssl now b0]) (use s0 assms(2) in \<open>simp_all add: open_auth_def password_configured_def\<close>)
  let ?s' = "arm now (config_ms (to s0)) ConfigTimeout
      (?s ob\<lparr>config_op_token := 1, requested_cfg := cfg, phase := Configuring\<rparr>)"
  let ?b = "b0\<lparr>fk_config_pending := True, fk_pending_requested := cfg, fk_next_token := 1, fk_config_token := 1\<rparr>"
  have c: "handle_frame fake_vtable ssl now (mk_frame MSG_CONFIGURE 0 (packConfig cfg)) (?s ob, b0) = (?s', ?b)"
    using configure_step [of "?s ob" cfg b0 ssl now] assms(1)
    by (simp add: arm_def b0 fake_start_def fake_set_sink_def fake_init_def)
  have "chunks \<noteq> []" using assms(4) by (auto simp: client_hello_def frame_bytes_def)
  moreover have "frame_wf f \<and> isKnownType (ftype f)" if "f \<in> set (client_hello cfg)" for f
    using that by (auto simp: client_hello_def isKnownType_def)
  ultimately have "xrs.same (fold (feed fake_vtable ssl now) chunks (s0, b0))
      (run_frames (handle_frame fake_vtable ssl now) (\<lambda>sb. phase (fst sb) = Closed) (client_hello cfg) (s0, b0))"
    using s0(1) by (intro feed_frames [OF inv _ s0(6) _ assms(4)]) simp_all
  moreover have "run_frames (handle_frame fake_vtable ssl now) (\<lambda>sb. phase (fst sb) = Closed) (client_hello cfg) (s0, b0) =
      (?s', ?b)" using h c by (simp add: client_hello_def arm_def)
  ultimately have eq: "s1\<lparr>parser := parser_init\<rparr> = ?s'\<lparr>parser := parser_init\<rparr>" and "b1 = ?b"
    by (simp_all add: xrs.same_def assms(5))
  then show "b1 = (fake_start (fake_set_sink True fake_init))\<lparr>fk_config_pending := True, fk_pending_requested := cfg,
       fk_next_token := 1, fk_config_token := 1\<rparr>" by (simp add: b0)
  show "phase s1 = Configuring" "requested_cfg s1 = cfg" "config_op_token s1 = 1" "bb_invar (outbox s1)"
    "bb_data (outbox s1) = frame_bytes hello_ack @ frame_bytes (auth_result AUTH_OK)" "bb_cap (outbox s1) = m"
    using arg_cong [OF eq, of phase] arg_cong [OF eq, of requested_cfg] arg_cong [OF eq, of config_op_token]
      arg_cong [OF eq, of outbox] ob by (simp_all add: arm_def)
qed

lemma firmware_answered:
  assumes "setDesiredConfig cfg (reset f0) = (True, f1)" and "onConnected (snd (onConnecting f1)) = (ev, f2)"
  shows "ev = EV_SEND_HELLO" "cs_state (fold (\<lambda>f s. snd (onFrame f s)) (bridge_answer cfg) f2) = ST_READY_RX"
proof -
  have f: "f1 = (reset f0)\<lparr>cs_cfg := cfg, have_cfg := True\<rparr>" and v: "radioConfigValid cfg"
    using assms(1) by (auto simp: setDesiredConfig_def split: if_splits)
  have r: "cs_state f1 = ST_DISCONNECTED" by (simp add: f reset_def clearVolatile_def)
  then show "ev = EV_SEND_HELLO" using assms(2) by (auto simp: onConnecting_def onConnected_def)
  have f2: "f2 = (clearVolatile (f1\<lparr>cs_state := ST_CONNECTING\<rparr>))\<lparr>cs_state := ST_HANDSHAKE\<rparr>"
    using assms(2) r by (auto simp: onConnecting_def onConnected_def)
  have "client_ok cfg f2" "cview f2 = KHello"
    using v by (simp_all add: f2 f client_ok_def client_inv_def cview_def client_op_defs)
  moreover have "takes_all cfg KHello (bridge_answer cfg) (KReady None)"
    using takes_all.cons [OF takes.intros(1) takes_all.cons [OF takes.intros(3) takes_one [OF takes.intros(5)]]]
    by (simp add: bridge_answer_def)
  ultimately show "cs_state (fold (\<lambda>f s. snd (onFrame f s)) (bridge_answer cfg) f2) = ST_READY_RX"
    using firmware_takes_all by (fastforce simp: cview_def view_of_cases)
qed



section \<open>The process\<close>

text \<open>
  C8.  From start to exit.  A bridge that started, run for any number of passes and then told to
  stop, ends with status 0, no client, no listening socket and no log open, and its backend
  detached and with no transmission that somebody waits for; this holds for both backends.
\<close>

theorem shutdown_is_clean:
  assumes "start_bridge sys args = Inr (opts, choice, sv, l)"
    and "\<forall>p \<in> set ps. \<forall>t. rand_ok (env_rand (snd p t))" and "\<forall>i \<in> set cs. fresh_item i"
  shows "case choice of
      UseFake \<Rightarrow>
        (case run_bridge fake_vtable ssl ps now (sv, fake_init) l of (code, (sv', b'), l') \<Rightarrow>
           code = 0 \<and> conn sv' = None \<and> \<not> listen_fd sv' \<and> \<not> rl_open l' \<and> \<not> fk_sink b' \<and> \<not> fk_tx_pending b')
    | UseLoraham dp \<Rightarrow>
        (case run_bridge lora_vtable ssl ps now (sv, new_loraham (new_transport dp cs rs) 2000 30000) l of
           (code, (sv', b'), l') \<Rightarrow>
           code = 0 \<and> conn sv' = None \<and> \<not> listen_fd sv' \<and> \<not> rl_open l' \<and> \<not> lb_sink b' \<and> \<not> tx_open_lora b')"
proof -
  obtain a where "listen (listen_sys sys (bind_addr opts) (port opts)) (new_server a (timeouts opts) kDefaultMaxOutbox)
      = (Inr (), sv)" using assms(1) by (rule start_bridge_InrE)
  then have sv: "conn sv = None" using listen_Inr by (fastforce simp: new_server_def)
  show ?thesis
  proof (cases choice)
    case UseFake
    have "fake_inv fake_init" "\<not> fk_sink fake_init" "\<not> fk_tx_pending fake_init"
      by (simp_all add: fake_inv_def fake_init_def)
    moreover obtain code sv' b' l' where r: "run_bridge fake_vtable ssl ps now (sv, fake_init) l = (code, (sv', b'), l')"
      by (metis prod.exhaust)
    ultimately have "code = 0 \<and> conn sv' = None \<and> \<not> listen_fd sv' \<and> fake_inv b' \<and> \<not> fk_sink b' \<and>
        \<not> fk_tx_pending b' \<and> \<not> rl_open l'"
      by (intro fake.run_bridge_ends [OF sv _ _ _ assms(2) r])
    then show ?thesis by (simp add: UseFake r)
  next
    case (UseLoraham dp)
    let ?b = "new_loraham (new_transport dp cs rs) 2000 30000"
    have "\<not> lb_sink ?b" "\<not> tx_open_lora ?b" by (simp_all add: new_loraham_def tx_open_lora_def)
    moreover obtain code sv' b' l' where r: "run_bridge lora_vtable ssl ps now (sv, ?b) l = (code, (sv', b'), l')"
      by (metis prod.exhaust)
    ultimately have "code = 0 \<and> conn sv' = None \<and> \<not> listen_fd sv' \<and> lora_inv b' \<and> \<not> lb_sink b' \<and>
        \<not> tx_open_lora b' \<and> \<not> rl_open l'"
      by (intro lora.run_bridge_ends [OF sv lora_inv_new [OF assms(3)] _ _ assms(2) r])
    then show ?thesis by (simp add: UseLoraham r)
  qed
qed

theorem shutdown_is_clean_witness:
  "\<exists>sv l. start_bridge (accepting_sys (\<lambda>_. None)) [] = Inr (default_options, UseFake, sv, l) \<and>
     fst (run_bridge fake_vtable demo_ssl demo_passes 2 (sv, fake_init) l) = 0 \<and>
     \<not> listen_fd (fst (fst (snd (run_bridge fake_vtable demo_ssl demo_passes 2 (sv, fake_init) l))))"
proof -
  obtain sv l where s: "start_bridge (accepting_sys (\<lambda>_. None)) [] = Inr (default_options, UseFake, sv, l)"
    using default_start by blast
  with shutdown_is_clean [OF s demo_passes_rand, of "[]" demo_ssl 2 "[]"] show ?thesis
    by (auto simp: split_beta)
qed

end
